theory Spec2Isabelle
  imports Main "HOL-Library.Word" "HOL-Library.Multiset" "HOL-Library.AList"
begin

unbundle bit_operations_syntax

section \<open>The task model (internal/models/task.go)\<close>

text \<open>
  \<open>TaskStatus\<close> is a Go \<open>int\<close> with two named constants. Every integer is a value of
  the type, so the model keeps it an integer and \<open>IsValid\<close> separates the two legal
  values from the rest.
\<close>

type_synonym TaskStatus = int

definition TaskIncomplete :: TaskStatus where
  "TaskIncomplete = 0"

definition TaskCompleted :: TaskStatus where
  "TaskCompleted = 1"

definition IsValid :: "TaskStatus \<Rightarrow> bool" where
  "IsValid ts \<longleftrightarrow> ts = TaskIncomplete \<or> ts = TaskCompleted"

text \<open>
  A \<open>time.Time\<close> is an instant. The model counts instants as integers relative to the
  zero value of the type, which is what \<open>IsZero\<close> tests. \<open>time.Now()\<close> is an input of
  every operation that reads the clock.
\<close>

type_synonym Time = int

definition IsZero :: "Time \<Rightarrow> bool" where
  "IsZero t \<longleftrightarrow> t = 0"

record Task =
  ID :: string
  Name :: string
  Status :: TaskStatus
  CreatedAt :: Time
  UpdatedAt :: Time

record CreateTaskRequest =
  req_Name :: string
  req_Status :: TaskStatus

text \<open>The two optional fields of an update are Go pointers: \<open>nil\<close> is \<open>None\<close>.\<close>

record UpdateTaskRequest =
  upd_Name :: "string option"
  upd_Status :: "TaskStatus option"

datatype validation_error = EmptyName | NameTooLong | InvalidStatus TaskStatus

text \<open>
  The errors of the source are formatted strings; the model keeps their kind. \<open>Panic\<close>
  stands for a Go run-time panic (nil dereference, index or slice bounds out of range,
  integer division by zero, write to a nil map, negative capacity in \<open>make\<close>).
\<close>

datatype error =
    ValidationError validation_error
  | CapacityExceeded
  | NotFound string
  | NoOpUpdate
  | Unhealthy
  | Panic

text \<open>\<open>len\<close> of a Go string counts bytes, as \<open>length\<close> of a HOL string does.\<close>

definition Validate :: "CreateTaskRequest \<Rightarrow> validation_error option" where
  "Validate req =
     (if req_Name req = [] then Some EmptyName
      else if length (req_Name req) > 255 then Some NameTooLong
      else if \<not> IsValid (req_Status req) then Some (InvalidStatus (req_Status req))
      else None)"

definition Validate_update :: "UpdateTaskRequest \<Rightarrow> validation_error option" where
  "Validate_update req =
     (case (case upd_Name req of
              None \<Rightarrow> None
            | Some n \<Rightarrow> if n = [] then Some EmptyName
                        else if length n > 255 then Some NameTooLong
                        else None) of
        Some e \<Rightarrow> Some e
      | None \<Rightarrow>
          (case upd_Status req of
             None \<Rightarrow> None
           | Some s \<Rightarrow> if \<not> IsValid s then Some (InvalidStatus s) else None))"

definition HasUpdates :: "UpdateTaskRequest \<Rightarrow> bool" where
  "HasUpdates req \<longleftrightarrow> upd_Name req \<noteq> None \<or> upd_Status req \<noteq> None"

definition ApplyTo :: "Time \<Rightarrow> UpdateTaskRequest \<Rightarrow> Task \<Rightarrow> Task" where
  "ApplyTo now req task =
     (let task1 = (case upd_Name req of
                     None \<Rightarrow> task
                   | Some n \<Rightarrow> task\<lparr>Name := n, UpdatedAt := now\<rparr>)
      in (case upd_Status req of
            None \<Rightarrow> task1
          | Some s \<Rightarrow> task1\<lparr>Status := s, UpdatedAt := now\<rparr>))"

text \<open>\<open>NewTask\<close> leaves the identifier at the zero value of a string.\<close>

definition NewTask :: "Time \<Rightarrow> string \<Rightarrow> TaskStatus \<Rightarrow> Task" where
  "NewTask now name status =
     \<lparr>ID = [], Name = name, Status = status, CreatedAt = now, UpdatedAt = now\<rparr>"

section \<open>Machine integers\<close>

text \<open>
  A Go \<open>int\<close> and an \<open>int64\<close> are 64-bit two's complement on the platforms the service is
  built for. Sums are computed in \<open>int\<close> and wrapped.
\<close>

definition is_int64 :: "int \<Rightarrow> bool" where
  "is_int64 x \<longleftrightarrow> - (2 ^ 63) \<le> x \<and> x < 2 ^ 63"

definition wrap64 :: "int \<Rightarrow> int" where
  "wrap64 x = (x + 2 ^ 63) mod 2 ^ 64 - 2 ^ 63"

section \<open>The sharded store\<close>

text \<open>
  A Go map is modelled by an association list with at most one entry per key: lookup is
  \<open>map_of\<close>, assignment \<open>AList.update\<close>, \<open>delete\<close> is \<open>AList.delete\<close>, \<open>len\<close> is
  \<open>length\<close>. The position of an entry in the list has no meaning: the order in which a
  \<open>range\<close> loop visits the entries is chosen by the run time, anew at each loop, and is
  an argument of every operation that ranges over a map (see \<open>map_order\<close>).

  A map value may be \<open>nil\<close> (\<open>None\<close>): reading a nil map finds nothing, writing to it
  panics. A shard is held by pointer, which may be \<open>nil\<close> as well; \<open>HealthCheck\<close> tests
  both. The locks of the source are not modelled: the operations are taken one at a
  time. The object pool \<open>taskPool\<close> is never read by any operation and is left out.
  Request and store pointers handed to an operation are taken to be non-nil, and memory
  does not run out.
\<close>

type_synonym task_map = "(string \<times> Task) list"

record shard =
  tasks :: "task_map option"

record MemoryStorage =
  shards :: "shard option list"
  shardCount :: "32 word"
  maxTasks :: int
  taskCount :: int

definition entries :: "task_map option \<Rightarrow> task_map" where
  "entries m = (case m of None \<Rightarrow> [] | Some al \<Rightarrow> al)"

definition new_shard :: "shard option" where
  "new_shard = Some \<lparr>tasks = Some []\<rparr>"

definition NewMemoryStorage :: "int \<Rightarrow> MemoryStorage" where
  "NewMemoryStorage maxTasks0 =
     (let maxTasks1 = (if maxTasks0 \<le> 0 then 10000 else maxTasks0);
          shardCount1 = (if maxTasks1 < 1000 then 8
                         else if maxTasks1 > 100000 then 64
                         else (32::int));
          shards1 = replicate (nat shardCount1) new_shard;
          safeShardCount = (if shardCount1 < 0 \<or> shardCount1 > 2147483647 then 32
                            else word_of_int shardCount1)
      in \<lparr>shards = shards1, shardCount = safeShardCount,
          maxTasks = maxTasks1, taskCount = 0\<rparr>)"

subsection \<open>Shard selection\<close>

fun fnv32_loop :: "32 word \<Rightarrow> string \<Rightarrow> 32 word" where
  "fnv32_loop hash [] = hash"
| "fnv32_loop hash (c # cs) = fnv32_loop ((hash XOR of_char c) * 16777619) cs"

definition fnv32Hash :: "string \<Rightarrow> 32 word" where
  "fnv32Hash key = fnv32_loop 2166136261 key"

text \<open>
  \<open>getShard\<close> returns a pointer into the slice of shards; the model returns the index.
  The remainder panics on a zero divisor and the indexing on an index past the end.
\<close>

definition getShard :: "MemoryStorage \<Rightarrow> string \<Rightarrow> error + nat" where
  "getShard ms key =
     (let hash = fnv32Hash key
      in if shardCount ms = 0 then Inl Panic
         else (let shardIndex = unat (hash mod shardCount ms)
               in if shardIndex < length (shards ms) then Inr shardIndex
                  else Inl Panic))"

text \<open>
  The FNV-1a hash as the specification words it, on natural numbers: start from the offset
  basis, and for each byte xor it in, then multiply by the prime, keeping 32 bits.
\<close>

definition fnv1a_32_spec :: "string \<Rightarrow> nat" where
  "fnv1a_32_spec key =
     foldl (\<lambda>h b. ((h XOR b) * 16777619) mod 2 ^ 32) 2166136261 (map of_char key)"

subsection \<open>Ranging over the shards\<close>

text \<open>
  A \<open>map_order\<close> is the run time's choice of iteration order: for the shard with a given
  index and the entries of its map, the sequence in which the loop sees them. Go visits
  every entry exactly once, which is \<open>permutes\<close>.
\<close>

type_synonym map_order = "nat \<Rightarrow> task_map \<Rightarrow> task_map"

definition permutes :: "map_order \<Rightarrow> bool" where
  "permutes ord \<longleftrightarrow> (\<forall>i al. mset (ord i al) = mset al)"

text \<open>
  The inner loop shared by the read operations: append a copy of every visited task that
  passes the test.
\<close>

fun range_append :: "(Task \<Rightarrow> bool) \<Rightarrow> Task list \<Rightarrow> task_map \<Rightarrow> Task list" where
  "range_append keep acc [] = acc"
| "range_append keep acc ((k, task) # rest) =
     range_append keep (if keep task then acc @ [task] else acc) rest"

text \<open>The outer loop over the shards; locking a nil shard panics.\<close>

fun collect :: "map_order \<Rightarrow> (Task \<Rightarrow> bool) \<Rightarrow> nat \<Rightarrow> shard option list \<Rightarrow> Task list
    \<Rightarrow> error + Task list" where
  "collect ord keep i [] acc = Inr acc"
| "collect ord keep i (None # rest) acc = Inl Panic"
| "collect ord keep i (Some sh # rest) acc =
     collect ord keep (Suc i) rest (range_append keep acc (ord i (entries (tasks sh))))"

definition GetAll :: "map_order \<Rightarrow> MemoryStorage \<Rightarrow> error + Task list" where
  "GetAll ord ms =
     (if taskCount ms < 0 then Inl Panic
      else collect ord (\<lambda>task. True) 0 (shards ms) [])"

definition GetTasksByStatus :: "map_order \<Rightarrow> MemoryStorage \<Rightarrow> TaskStatus \<Rightarrow> error + Task list" where
  "GetTasksByStatus ord ms status = collect ord (\<lambda>task. Status task = status) 0 (shards ms) []"

text \<open>
  A slice expression \<open>a[low:high]\<close> panics unless \<open>0 \<le> low \<le> high \<le> cap(a)\<close>. Its
  only use below has \<open>high \<le> len(a)\<close>, where the capacity plays no part.
\<close>

definition slice :: "'a list \<Rightarrow> int \<Rightarrow> int \<Rightarrow> error + 'a list" where
  "slice xs low high =
     (if 0 \<le> low \<and> low \<le> high \<and> high \<le> int (length xs)
      then Inr (take (nat (high - low)) (drop (nat low) xs))
      else Inl Panic)"

text \<open>The part of \<open>GetTasksPaginated\<close> after the record set has been materialised.\<close>

definition paginate :: "Task list \<Rightarrow> int \<Rightarrow> int \<Rightarrow> error + (Task list \<times> int)" where
  "paginate allTasks offset limit =
     (let total = int (length allTasks)
      in if offset \<ge> total then Inr ([], total)
         else (let end0 = wrap64 (offset + limit);
                   end1 = (if end0 > total then total else end0)
               in (case slice allTasks offset end1 of
                     Inl e \<Rightarrow> Inl e
                   | Inr paginatedTasks \<Rightarrow> Inr (paginatedTasks, total))))"

definition GetTasksPaginated :: "map_order \<Rightarrow> MemoryStorage \<Rightarrow> int \<Rightarrow> int
    \<Rightarrow> error + (Task list \<times> int)" where
  "GetTasksPaginated ord ms offset limit =
     (if taskCount ms < 0 then Inl Panic
      else (case collect ord (\<lambda>task. True) 0 (shards ms) [] of
              Inl e \<Rightarrow> Inl e
            | Inr allTasks \<Rightarrow> paginate allTasks offset limit))"

text \<open>
  internal/storage/memory.go holds a store of the same name with a single map under a
  single lock. Its \<open>GetTasksPaginated\<close> ranges over that map, with capacity
  \<open>len(ms.tasks)\<close>, and continues with the same statements.
\<close>

definition GetTasksPaginated_single :: "map_order \<Rightarrow> task_map option \<Rightarrow> int \<Rightarrow> int
    \<Rightarrow> error + (Task list \<times> int)" where
  "GetTasksPaginated_single ord tasks1 offset limit =
     paginate (range_append (\<lambda>task. True) [] (ord 0 (entries tasks1))) offset limit"

subsection \<open>Point operations\<close>

definition GetByID :: "MemoryStorage \<Rightarrow> string \<Rightarrow> error + Task" where
  "GetByID ms tid =
     (case getShard ms tid of
        Inl e \<Rightarrow> Inl e
      | Inr i \<Rightarrow>
          (case shards ms ! i of
             None \<Rightarrow> Inl Panic
           | Some sh \<Rightarrow>
               (case map_of (entries (tasks sh)) tid of
                  None \<Rightarrow> Inl (NotFound tid)
                | Some task \<Rightarrow> Inr task)))"

text \<open>
  The write operations return the outcome together with the store as it is after the
  call. \<open>Create\<close> takes the clock reading and the identifier that \<open>uuid.New()\<close> hands out.
\<close>

definition Create :: "Time \<Rightarrow> string \<Rightarrow> MemoryStorage \<Rightarrow> CreateTaskRequest
    \<Rightarrow> (error + Task) \<times> MemoryStorage" where
  "Create now taskID ms req =
     (case Validate req of
        Some e \<Rightarrow> (Inl (ValidationError e), ms)
      | None \<Rightarrow>
          if taskCount ms \<ge> maxTasks ms then (Inl CapacityExceeded, ms)
          else (let task = (NewTask now (req_Name req) (req_Status req))\<lparr>ID := taskID\<rparr>
                in (case getShard ms taskID of
                      Inl e \<Rightarrow> (Inl e, ms)
                    | Inr i \<Rightarrow>
                        (case shards ms ! i of
                           None \<Rightarrow> (Inl Panic, ms)
                         | Some sh \<Rightarrow>
                             (case tasks sh of
                                None \<Rightarrow> (Inl Panic, ms)
                              | Some al \<Rightarrow>
                                  (Inr task,
                                   ms\<lparr>shards := (shards ms)
                                         [i := Some (sh\<lparr>tasks := Some (AList.update taskID task al)\<rparr>)],
                                      taskCount := wrap64 (taskCount ms + 1)\<rparr>))))))"

definition Update :: "Time \<Rightarrow> MemoryStorage \<Rightarrow> string \<Rightarrow> UpdateTaskRequest
    \<Rightarrow> (error + Task) \<times> MemoryStorage" where
  "Update now ms tid req =
     (case Validate_update req of
        Some e \<Rightarrow> (Inl (ValidationError e), ms)
      | None \<Rightarrow>
          if \<not> HasUpdates req then (Inl NoOpUpdate, ms)
          else (case getShard ms tid of
                  Inl e \<Rightarrow> (Inl e, ms)
                | Inr i \<Rightarrow>
                    (case shards ms ! i of
                       None \<Rightarrow> (Inl Panic, ms)
                     | Some sh \<Rightarrow>
                         (case map_of (entries (tasks sh)) tid of
                            None \<Rightarrow> (Inl (NotFound tid), ms)
                          | Some task \<Rightarrow>
                              (let updatedTask = ApplyTo now req task
                               in (Inr updatedTask,
                                   ms\<lparr>shards := (shards ms)
                                         [i := Some (sh\<lparr>tasks :=
                                            Some (AList.update tid updatedTask (entries (tasks sh)))\<rparr>)]\<rparr>))))))"

definition Delete :: "MemoryStorage \<Rightarrow> string \<Rightarrow> error option \<times> MemoryStorage" where
  "Delete ms tid =
     (case getShard ms tid of
        Inl e \<Rightarrow> (Some e, ms)
      | Inr i \<Rightarrow>
          (case shards ms ! i of
             None \<Rightarrow> (Some Panic, ms)
           | Some sh \<Rightarrow>
               (case map_of (entries (tasks sh)) tid of
                  None \<Rightarrow> (Some (NotFound tid), ms)
                | Some task \<Rightarrow>
                    (None,
                     ms\<lparr>shards := (shards ms)
                           [i := Some (sh\<lparr>tasks := Some (AList.delete tid (entries (tasks sh)))\<rparr>)],
                        taskCount := wrap64 (taskCount ms - 1)\<rparr>))))"

definition Count :: "MemoryStorage \<Rightarrow> int" where
  "Count ms = taskCount ms"

text \<open>
  \<open>Clear\<close> replaces the map of each shard in turn; a nil shard stops it with a panic,
  the shards before it already emptied and the counter not yet reset.
\<close>

fun clear_shards :: "shard option list \<Rightarrow> error option \<times> shard option list" where
  "clear_shards [] = (None, [])"
| "clear_shards (None # rest) = (Some Panic, None # rest)"
| "clear_shards (Some sh # rest) =
     (case clear_shards rest of (e, rest') \<Rightarrow> (e, Some (sh\<lparr>tasks := Some []\<rparr>) # rest'))"

definition Clear :: "MemoryStorage \<Rightarrow> error option \<times> MemoryStorage" where
  "Clear ms =
     (case clear_shards (shards ms) of
        (Some e, shards') \<Rightarrow> (Some e, ms\<lparr>shards := shards'\<rparr>)
      | (None, shards') \<Rightarrow> (None, ms\<lparr>shards := shards', taskCount := 0\<rparr>))"

fun check_shards :: "shard option list \<Rightarrow> error option" where
  "check_shards [] = None"
| "check_shards (None # rest) = Some Unhealthy"
| "check_shards (Some sh # rest) =
     (if tasks sh = None then Some Unhealthy else check_shards rest)"

definition HealthCheck :: "MemoryStorage \<Rightarrow> error option" where
  "HealthCheck ms =
     (if length (shards ms) = 0 then Some Unhealthy else check_shards (shards ms))"

section \<open>Sequences of operations\<close>

text \<open>
  A run of \<open>Create\<close> calls, each with its clock reading, its fresh identifier and its
  request; the outcomes are kept in order.
\<close>

fun create_seq :: "(Time \<times> string \<times> CreateTaskRequest) list \<Rightarrow> MemoryStorage
    \<Rightarrow> (error + Task) list \<times> MemoryStorage" where
  "create_seq [] ms = ([], ms)"
| "create_seq ((now, taskID, req) # rest) ms =
     (case Create now taskID ms req of
        (r, ms') \<Rightarrow> (case create_seq rest ms' of (rs, ms'') \<Rightarrow> (r # rs, ms'')))"

text \<open>
  A writing call with its inputs, the store after one such call, and after a sequence of
  them. A call \<open>touches\<close> a key when it is made on that key (or creates under it, or
  clears the store); it \<open>removes\<close> a key when it deletes that key or clears the store.
\<close>

datatype write_op =
    DoCreate Time string CreateTaskRequest
  | DoUpdate Time string UpdateTaskRequest
  | DoDelete string
  | DoClear

fun apply_write :: "write_op \<Rightarrow> MemoryStorage \<Rightarrow> MemoryStorage" where
  "apply_write (DoCreate now taskID req) ms = snd (Create now taskID ms req)"
| "apply_write (DoUpdate now tid upd) ms = snd (Update now ms tid upd)"
| "apply_write (DoDelete tid) ms = snd (Delete ms tid)"
| "apply_write DoClear ms = snd (Clear ms)"

fun run_writes :: "write_op list \<Rightarrow> MemoryStorage \<Rightarrow> MemoryStorage" where
  "run_writes [] ms = ms"
| "run_writes (w # ws) ms = run_writes ws (apply_write w ms)"

fun touches :: "string \<Rightarrow> write_op \<Rightarrow> bool" where
  "touches key (DoCreate now taskID req) = (taskID = key)"
| "touches key (DoUpdate now tid upd) = (tid = key)"
| "touches key (DoDelete tid) = (tid = key)"
| "touches key DoClear = True"

fun removes :: "string \<Rightarrow> write_op \<Rightarrow> bool" where
  "removes key (DoDelete tid) = (tid = key)"
| "removes key DoClear = True"
| "removes key w = False"

text \<open>
  The states of a store in use, paired with the latest clock reading. The store starts
  from \<open>NewMemoryStorage\<close> and changes only through its four writing operations. The
  clock never runs backwards between two readings: comparisons of \<open>time.Now()\<close> values
  taken in one process use Go's monotonic clock.
\<close>

inductive reachable :: "Time \<Rightarrow> MemoryStorage \<Rightarrow> bool" where
  fresh: "is_int64 n \<Longrightarrow> reachable t (NewMemoryStorage n)"
| create: "reachable t ms \<Longrightarrow> t \<le> now \<Longrightarrow> reachable now (snd (Create now taskID ms req))"
| update: "reachable t ms \<Longrightarrow> t \<le> now \<Longrightarrow> reachable now (snd (Update now ms tid upd))"
| delete: "reachable t ms \<Longrightarrow> reachable t (snd (Delete ms tid))"
| clear: "reachable t ms \<Longrightarrow> reachable t (snd (Clear ms))"

section \<open>Stored records and the store invariant\<close>

definition shard_entries :: "shard option \<Rightarrow> task_map" where
  "shard_entries s = (case s of None \<Rightarrow> [] | Some sh \<Rightarrow> entries (tasks sh))"

definition tasks_of :: "shard option list \<Rightarrow> Task list" where
  "tasks_of shs = concat (map (\<lambda>s. map snd (shard_entries s)) shs)"

text \<open>Every record the store holds, shard after shard.\<close>

definition all_tasks :: "MemoryStorage \<Rightarrow> Task list" where
  "all_tasks ms = tasks_of (shards ms)"

text \<open>A shard is in order when it is allocated, its map is, and no key occurs twice.\<close>

definition shard_ok :: "shard option \<Rightarrow> bool" where
  "shard_ok s \<longleftrightarrow>
     (case s of
        None \<Rightarrow> False
      | Some sh \<Rightarrow> (case tasks sh of None \<Rightarrow> False | Some al \<Rightarrow> distinct (map fst al)))"

definition task_ok :: "Task \<Rightarrow> bool" where
  "task_ok task \<longleftrightarrow>
     Name task \<noteq> [] \<and> length (Name task) \<le> 255 \<and> IsValid (Status task)
     \<and> CreatedAt task \<le> UpdatedAt task"

text \<open>
  The invariant at clock reading \<open>t\<close>: as many shards as the shard count says, all in
  order; every stored record well formed and stamped no later than \<open>t\<close>; the counter
  between the number of stored records and the ceiling, which is a 64-bit integer.
\<close>

definition store_inv :: "Time \<Rightarrow> MemoryStorage \<Rightarrow> bool" where
  "store_inv t ms \<longleftrightarrow>
     shardCount ms \<noteq> 0 \<and> length (shards ms) = unat (shardCount ms)
     \<and> list_all shard_ok (shards ms)
     \<and> list_all (\<lambda>task. task_ok task \<and> UpdatedAt task \<le> t) (all_tasks ms)
     \<and> int (length (all_tasks ms)) \<le> taskCount ms
     \<and> taskCount ms \<le> maxTasks ms
     \<and> maxTasks ms < 2 ^ 63"

text \<open>
  The part of the invariant the point operations rely on, the index \<open>getShard\<close>
  computes for a key, and the shard list after the map of one shard has been replaced.
\<close>

definition wf_shards :: "MemoryStorage \<Rightarrow> bool" where
  "wf_shards ms \<longleftrightarrow>
     shardCount ms \<noteq> 0 \<and> length (shards ms) = unat (shardCount ms)
     \<and> list_all shard_ok (shards ms)"

definition shard_index :: "MemoryStorage \<Rightarrow> string \<Rightarrow> nat" where
  "shard_index ms key = unat (fnv32Hash key) mod unat (shardCount ms)"

definition put_shard :: "MemoryStorage \<Rightarrow> nat \<Rightarrow> task_map \<Rightarrow> shard option list" where
  "put_shard ms i al = (shards ms)[i := Some \<lparr>tasks = Some al\<rparr>]"

section \<open>Sample data\<close>

text \<open>Concrete requests, identifiers and stores on which the theorems are instantiated.\<close>

definition req_A :: CreateTaskRequest where
  "req_A = \<lparr>req_Name = ''A'', req_Status = TaskIncomplete\<rparr>"

definition req_B :: CreateTaskRequest where
  "req_B = \<lparr>req_Name = ''B'', req_Status = TaskCompleted\<rparr>"

definition req_bad :: CreateTaskRequest where
  "req_bad = \<lparr>req_Name = [], req_Status = TaskIncomplete\<rparr>"

definition upd_none :: UpdateTaskRequest where
  "upd_none = \<lparr>upd_Name = None, upd_Status = None\<rparr>"

definition upd_name :: UpdateTaskRequest where
  "upd_name = \<lparr>upd_Name = Some ''C'', upd_Status = None\<rparr>"

definition upd_status :: UpdateTaskRequest where
  "upd_status = \<lparr>upd_Name = None, upd_Status = Some TaskCompleted\<rparr>"

definition upd_bad :: UpdateTaskRequest where
  "upd_bad = \<lparr>upd_Name = Some [], upd_Status = None\<rparr>"

definition id_1 :: string where
  "id_1 = ''123e4567-e89b-42d3-a456-426614174000''"

definition id_2 :: string where
  "id_2 = ''123e4567-e89b-42d3-a456-426614174001''"

definition id_3 :: string where
  "id_3 = ''123e4567-e89b-42d3-a456-426614174002''"

text \<open>The record that the first sample request creates at clock reading 1.\<close>

definition task_A :: Task where
  "task_A = \<lparr>ID = id_1, Name = ''A'', Status = TaskIncomplete, CreatedAt = 1, UpdatedAt = 1\<rparr>"

text \<open>A store with ceiling 1 holding one record, and one with ceiling 2 holding two.\<close>

definition store_1 :: MemoryStorage where
  "store_1 = snd (Create 1 id_1 (NewMemoryStorage 1) req_A)"

definition store_2 :: MemoryStorage where
  "store_2 = snd (Create 2 id_2 (snd (Create 1 id_1 (NewMemoryStorage 2) req_A)) req_B)"

text \<open>
  The second record, the two calls that fill the second store, and that store after its
  first record has been deleted.
\<close>

definition task_B :: Task where
  "task_B = \<lparr>ID = id_2, Name = ''B'', Status = TaskCompleted, CreatedAt = 2, UpdatedAt = 2\<rparr>"

definition calls_2 :: "(Time \<times> string \<times> CreateTaskRequest) list" where
  "calls_2 = [(1, id_1, req_A), (2, id_2, req_B)]"

definition store_2_del :: MemoryStorage where
  "store_2_del = snd (Delete store_2 id_1)"

text \<open>
  A store with ceiling 2 holding the first record, three later writes that do not touch
  it (a create, an update of the new record, a delete of an absent key), and the store
  after them.
\<close>

definition store_A :: MemoryStorage where
  "store_A = snd (Create 1 id_1 (NewMemoryStorage 2) req_A)"

definition writes_3 :: "write_op list" where
  "writes_3 = [DoCreate 2 id_2 req_B, DoUpdate 3 id_2 upd_name, DoDelete id_3]"

definition store_3 :: MemoryStorage where
  "store_3 = run_writes writes_3 store_A"

text \<open>The run time visits the entries of a map as they lie, or backwards.\<close>

definition ord_id :: map_order where
  "ord_id i al = al"

definition ord_rev :: map_order where
  "ord_rev i al = rev al"

section \<open>Auxiliary facts\<close>

lemma wrap64_id: "is_int64 x \<Longrightarrow> wrap64 x = x"
  by (simp add: is_int64_def wrap64_def)

lemma range_append_eq: "range_append keep acc al = acc @ filter keep (map snd al)"
  by (induction keep acc al rule: range_append.induct) auto

lemma shard_ok_Some:
  "shard_ok s \<Longrightarrow> \<exists>sh al. s = Some sh \<and> tasks sh = Some al \<and> distinct (map fst al)"
  by (auto simp: shard_ok_def split: option.splits)

lemma collect_mset:
  assumes "permutes ord" "list_all shard_ok shs"
  shows "\<exists>r. collect ord keep i shs acc = Inr r
             \<and> mset r = mset acc + filter_mset keep (mset (tasks_of shs))"
  using assms(2)
proof (induction shs arbitrary: i acc)
  case Nil
  then show ?case by (simp add: tasks_of_def)
next
  case (Cons s shs)
  then obtain sh al where s: "s = Some sh" "tasks sh = Some al"
    using shard_ok_Some by fastforce
  have p: "mset (ord i al) = mset al" using assms(1) by (simp add: permutes_def)
  have "mset (filter keep (map snd (ord i al))) = filter_mset keep (image_mset snd (mset al))"
    using p by (metis mset_filter mset_map)
  with Cons s show ?case
    by (fastforce simp: range_append_eq tasks_of_def shard_entries_def entries_def)
qed

lemma getShard_ok:
  assumes "shardCount ms \<noteq> 0" "length (shards ms) = unat (shardCount ms)"
  shows "getShard ms key = Inr (unat (fnv32Hash key) mod unat (shardCount ms))"
    and "unat (fnv32Hash key) mod unat (shardCount ms) < length (shards ms)"
proof -
  have "0 < unat (shardCount ms)" using assms(1) by (simp add: unat_gt_0)
  then show "unat (fnv32Hash key) mod unat (shardCount ms) < length (shards ms)"
    using assms(2) by simp
  then show "getShard ms key = Inr (unat (fnv32Hash key) mod unat (shardCount ms))"
    using assms(1) by (simp add: getShard_def Let_def unat_mod)
qed

lemma tasks_of_update_set:
  "i < length shs \<Longrightarrow>
   set (tasks_of (shs[i := s])) \<subseteq> set (tasks_of shs) \<union> snd ` set (shard_entries s)"
  by (auto simp: tasks_of_def dest!: subsetD[OF set_update_subset_insert])

lemma tasks_of_update_length:
  "i < length shs \<Longrightarrow>
   length (tasks_of (shs[i := s])) + length (shard_entries (shs ! i))
     = length (tasks_of shs) + length (shard_entries s)"
proof (induction shs arbitrary: i)
  case Nil
  then show ?case by simp
next
  case (Cons a shs)
  then show ?case by (cases i) (auto simp: tasks_of_def)
qed

lemma tasks_of_nth_subset:
  "i < length shs \<Longrightarrow> snd ` set (shard_entries (shs ! i)) \<subseteq> set (tasks_of shs)"
  by (force simp: tasks_of_def)


lemma alist_update_length:
  "length (AList.update k v al) = (if k \<in> fst ` set al then length al else Suc (length al))"
  by (induction al) auto

lemma alist_update_set:
  "snd ` set (AList.update k v al) \<subseteq> insert v (snd ` set al)"
  by (induction al) auto

lemma alist_delete_length:
  "map_of al k = Some v \<Longrightarrow> length (AList.delete k al) < length al"
  by (induction al) (auto simp: AList.delete_eq less_Suc_eq_le split: if_splits)

lemma alist_delete_set: "set (AList.delete k al) \<subseteq> set al"
  by (auto simp: AList.delete_eq)

lemma store_inv_fresh: "is_int64 n \<Longrightarrow> store_inv t (NewMemoryStorage n)"
  by (auto simp: store_inv_def NewMemoryStorage_def Let_def is_int64_def new_shard_def
      shard_ok_def all_tasks_def tasks_of_def shard_entries_def entries_def list_all_iff)


lemma store_inv_wf: "store_inv t ms \<Longrightarrow> wf_shards ms"
  by (simp add: store_inv_def wf_shards_def)

lemma wf_shards_nth:
  assumes "wf_shards ms"
  shows "shard_index ms key < length (shards ms)"
    and "getShard ms key = Inr (shard_index ms key)"
    and "\<exists>al. shards ms ! shard_index ms key = Some \<lparr>tasks = Some al\<rparr> \<and> distinct (map fst al)
            \<and> shard_entries (shards ms ! shard_index ms key) = al"
proof -
  show lt: "shard_index ms key < length (shards ms)"
    and "getShard ms key = Inr (shard_index ms key)"
    using assms getShard_ok[of ms key] by (simp_all add: wf_shards_def shard_index_def)
  have "shard_ok (shards ms ! shard_index ms key)"
    using assms lt by (simp add: wf_shards_def list_all_length)
  then obtain sh al where "shards ms ! shard_index ms key = Some sh" "tasks sh = Some al"
      "distinct (map fst al)"
    using shard_ok_Some by blast
  then show "\<exists>al. shards ms ! shard_index ms key = Some \<lparr>tasks = Some al\<rparr> \<and> distinct (map fst al)
            \<and> shard_entries (shards ms ! shard_index ms key) = al"
    by (cases sh) (simp add: shard_entries_def entries_def)
qed

lemma Create_unfold:
  assumes "wf_shards ms"
  shows "Create now taskID ms req =
     (case Validate req of
        Some e \<Rightarrow> (Inl (ValidationError e), ms)
      | None \<Rightarrow>
          if taskCount ms \<ge> maxTasks ms then (Inl CapacityExceeded, ms)
          else (Inr ((NewTask now (req_Name req) (req_Status req))\<lparr>ID := taskID\<rparr>),
                ms\<lparr>shards := put_shard ms (shard_index ms taskID)
                       (AList.update taskID ((NewTask now (req_Name req) (req_Status req))\<lparr>ID := taskID\<rparr>)
                          (shard_entries (shards ms ! shard_index ms taskID))),
                   taskCount := wrap64 (taskCount ms + 1)\<rparr>))"
proof -
  obtain al where "shards ms ! shard_index ms taskID = Some \<lparr>tasks = Some al\<rparr>"
      "shard_entries (shards ms ! shard_index ms taskID) = al"
    using wf_shards_nth(3)[OF assms] by blast
  then show ?thesis
    using wf_shards_nth(2)[OF assms, of taskID]
    by (simp add: Create_def Let_def put_shard_def split: option.splits)
qed

lemma Update_unfold:
  assumes "wf_shards ms"
  shows "Update now ms tid req =
     (case Validate_update req of
        Some e \<Rightarrow> (Inl (ValidationError e), ms)
      | None \<Rightarrow>
          if \<not> HasUpdates req then (Inl NoOpUpdate, ms)
          else (case map_of (shard_entries (shards ms ! shard_index ms tid)) tid of
                  None \<Rightarrow> (Inl (NotFound tid), ms)
                | Some task \<Rightarrow>
                    (Inr (ApplyTo now req task),
                     ms\<lparr>shards := put_shard ms (shard_index ms tid)
                           (AList.update tid (ApplyTo now req task)
                              (shard_entries (shards ms ! shard_index ms tid)))\<rparr>)))"
proof -
  obtain al where "shards ms ! shard_index ms tid = Some \<lparr>tasks = Some al\<rparr>"
      "shard_entries (shards ms ! shard_index ms tid) = al"
    using wf_shards_nth(3)[OF assms] by blast
  then show ?thesis
    using wf_shards_nth(2)[OF assms, of tid]
    by (simp add: Update_def Let_def put_shard_def entries_def split: option.splits)
qed

lemma Delete_unfold:
  assumes "wf_shards ms"
  shows "Delete ms tid =
     (case map_of (shard_entries (shards ms ! shard_index ms tid)) tid of
        None \<Rightarrow> (Some (NotFound tid), ms)
      | Some task \<Rightarrow>
          (None,
           ms\<lparr>shards := put_shard ms (shard_index ms tid)
                 (AList.delete tid (shard_entries (shards ms ! shard_index ms tid))),
              taskCount := wrap64 (taskCount ms - 1)\<rparr>))"
proof -
  obtain al where "shards ms ! shard_index ms tid = Some \<lparr>tasks = Some al\<rparr>"
      "shard_entries (shards ms ! shard_index ms tid) = al"
    using wf_shards_nth(3)[OF assms] by blast
  then show ?thesis
    using wf_shards_nth(2)[OF assms, of tid]
    by (simp add: Delete_def Let_def put_shard_def entries_def split: option.splits)
qed

lemma GetByID_unfold:
  assumes "wf_shards ms"
  shows "GetByID ms tid =
     (case map_of (shard_entries (shards ms ! shard_index ms tid)) tid of
        None \<Rightarrow> Inl (NotFound tid)
      | Some task \<Rightarrow> Inr task)"
proof -
  obtain al where "shards ms ! shard_index ms tid = Some \<lparr>tasks = Some al\<rparr>"
      "shard_entries (shards ms ! shard_index ms tid) = al"
    using wf_shards_nth(3)[OF assms] by blast
  then show ?thesis
    using wf_shards_nth(2)[OF assms, of tid]
    by (simp add: GetByID_def Let_def entries_def split: option.splits)
qed

text \<open>Replacing the map of one shard.\<close>

lemma put_shard_wf:
  assumes "wf_shards ms" "distinct (map fst al)"
  shows "wf_shards (ms\<lparr>shards := put_shard ms i al, taskCount := c\<rparr>)"
    and "wf_shards (ms\<lparr>shards := put_shard ms i al\<rparr>)"
  using assms
  by (auto simp: wf_shards_def put_shard_def list_all_iff shard_ok_def
      dest!: subsetD[OF set_update_subset_insert])

lemma put_shard_tasks_set:
  assumes "i < length (shards ms)"
  shows "set (tasks_of (put_shard ms i al)) \<subseteq> set (all_tasks ms) \<union> snd ` set al"
  using tasks_of_update_set[OF assms, of "Some \<lparr>tasks = Some al\<rparr>"]
  by (simp add: put_shard_def all_tasks_def shard_entries_def entries_def)

lemma put_shard_tasks_length:
  assumes "i < length (shards ms)"
  shows "length (tasks_of (put_shard ms i al)) + length (shard_entries (shards ms ! i))
           = length (all_tasks ms) + length al"
  using tasks_of_update_length[OF assms, of "Some \<lparr>tasks = Some al\<rparr>"]
  by (simp add: put_shard_def all_tasks_def shard_entries_def entries_def)

section \<open>The invariant is kept\<close>

lemma store_inv_mono: "store_inv t ms \<Longrightarrow> t \<le> t' \<Longrightarrow> store_inv t' ms"
  by (fastforce simp: store_inv_def list_all_iff)

lemma store_inv_count: "store_inv t ms \<Longrightarrow> 0 \<le> taskCount ms \<and> taskCount ms < 2 ^ 63"
  by (simp add: store_inv_def)

lemma Validate_None_iff:
  "Validate req = None \<longleftrightarrow>
     req_Name req \<noteq> [] \<and> length (req_Name req) \<le> 255 \<and> IsValid (req_Status req)"
  by (auto simp: Validate_def)

lemma Validate_update_None_iff:
  "Validate_update req = None \<longleftrightarrow>
     (\<forall>n. upd_Name req = Some n \<longrightarrow> n \<noteq> [] \<and> length n \<le> 255)
     \<and> (\<forall>s. upd_Status req = Some s \<longrightarrow> IsValid s)"
  by (auto simp: Validate_update_def split: option.splits)

lemma store_inv_putI:
  assumes inv: "store_inv t ms" and le: "t \<le> now"
    and i: "i < length (shards ms)"
    and d: "distinct (map fst al)"
    and new: "\<forall>task \<in> snd ` set al. task_ok task \<and> UpdatedAt task \<le> now"
    and len: "int (length al) \<le> int (length (shard_entries (shards ms ! i))) + (c - taskCount ms)"
    and c: "c \<le> maxTasks ms"
  shows "store_inv now (ms\<lparr>shards := put_shard ms i al, taskCount := c\<rparr>)"
proof -
  have wf: "wf_shards (ms\<lparr>shards := put_shard ms i al, taskCount := c\<rparr>)"
    using put_shard_wf(1)[OF store_inv_wf[OF inv] d] .
  have old: "\<forall>task \<in> set (all_tasks ms). task_ok task \<and> UpdatedAt task \<le> now"
    using inv le by (fastforce simp: store_inv_def list_all_iff)
  have rec: "\<forall>task \<in> set (tasks_of (put_shard ms i al)). task_ok task \<and> UpdatedAt task \<le> now"
    using put_shard_tasks_set[OF i, of al] old new by blast
  have "int (length (tasks_of (put_shard ms i al))) \<le> c"
    using put_shard_tasks_length[OF i, of al] len inv by (simp add: store_inv_def)
  with wf rec c inv show ?thesis
    by (simp add: store_inv_def wf_shards_def all_tasks_def list_all_iff)
qed

lemma store_inv_Create:
  assumes inv: "store_inv t ms" and le: "t \<le> now"
  shows "store_inv now (snd (Create now taskID ms req))"
proof (cases "Validate req = None \<and> taskCount ms < maxTasks ms")
  case False
  then show ?thesis
    using store_inv_mono[OF inv le]
    by (auto simp: Create_unfold[OF store_inv_wf[OF inv]] split: option.splits)
next
  case True
  define i where "i = shard_index ms taskID"
  define task where "task = (NewTask now (req_Name req) (req_Status req))\<lparr>ID := taskID\<rparr>"
  define al where "al = shard_entries (shards ms ! i)"
  have wf: "wf_shards ms" using inv by (rule store_inv_wf)
  have i: "i < length (shards ms)" and d: "distinct (map fst al)"
    using wf_shards_nth(1,3)[OF wf, of taskID] by (auto simp: i_def al_def)
  have tk: "task_ok task \<and> UpdatedAt task \<le> now"
    using True by (simp add: task_def NewTask_def task_ok_def Validate_None_iff)
  have old: "\<forall>x \<in> snd ` set al. task_ok x \<and> UpdatedAt x \<le> now"
    using tasks_of_nth_subset[OF i] inv le
    by (fastforce simp: al_def store_inv_def all_tasks_def list_all_iff)
  have new: "\<forall>x \<in> snd ` set (AList.update taskID task al). task_ok x \<and> UpdatedAt x \<le> now"
    using alist_update_set[of taskID task al] tk old by blast
  have w: "wrap64 (taskCount ms + 1) = taskCount ms + 1"
    using inv True by (intro wrap64_id) (simp add: is_int64_def store_inv_def)
  have "store_inv now (ms\<lparr>shards := put_shard ms i (AList.update taskID task al),
      taskCount := taskCount ms + 1\<rparr>)"
    using True by (intro store_inv_putI[OF inv le i distinct_update[OF d] new])
      (simp_all add: al_def[symmetric] alist_update_length)
  then show ?thesis
    using True by (simp add: Create_unfold[OF wf] w i_def al_def task_def)
qed

lemma ApplyTo_fields:
  "ID (ApplyTo now req task) = ID task"
  "CreatedAt (ApplyTo now req task) = CreatedAt task"
  "Name (ApplyTo now req task) = (case upd_Name req of None \<Rightarrow> Name task | Some n \<Rightarrow> n)"
  "Status (ApplyTo now req task) = (case upd_Status req of None \<Rightarrow> Status task | Some s \<Rightarrow> s)"
  "UpdatedAt (ApplyTo now req task) = (if HasUpdates req then now else UpdatedAt task)"
  by (auto simp: ApplyTo_def HasUpdates_def Let_def split: option.splits)

lemma store_inv_Update:
  assumes inv: "store_inv t ms" and le: "t \<le> now"
  shows "store_inv now (snd (Update now ms tid req))"
proof -
  define i where "i = shard_index ms tid"
  define al where "al = shard_entries (shards ms ! i)"
  have wf: "wf_shards ms" using inv by (rule store_inv_wf)
  have i: "i < length (shards ms)" and d: "distinct (map fst al)"
    using wf_shards_nth(1,3)[OF wf, of tid] by (auto simp: i_def al_def)
  have old: "\<forall>x \<in> snd ` set al. task_ok x \<and> UpdatedAt x \<le> t"
    using tasks_of_nth_subset[OF i] inv
    by (fastforce simp: al_def store_inv_def all_tasks_def list_all_iff)
  show ?thesis
  proof (cases "Validate_update req = None \<and> HasUpdates req \<and> map_of al tid \<noteq> None")
    case False
    then show ?thesis
      using store_inv_mono[OF inv le]
      by (auto simp: Update_unfold[OF wf] i_def al_def split: option.splits)
  next
    case True
    then obtain task where task: "map_of al tid = Some task" by blast
    then have mem: "task \<in> snd ` set al" by (force dest: map_of_SomeD)
    define task' where "task' = ApplyTo now req task"
    have "task_ok task'"
      using True mem old le
      by (auto simp: task'_def task_ok_def ApplyTo_fields Validate_update_None_iff
          split: option.splits)
    moreover have "UpdatedAt task' \<le> now"
      using True by (simp add: task'_def ApplyTo_fields)
    ultimately have new: "\<forall>x \<in> snd ` set (AList.update tid task' al). task_ok x \<and> UpdatedAt x \<le> now"
      using alist_update_set[of tid task' al] old le by fastforce
    have k: "tid \<in> fst ` set al" using task by (force dest: map_of_SomeD)
    have "store_inv now (ms\<lparr>shards := put_shard ms i (AList.update tid task' al),
        taskCount := taskCount ms\<rparr>)"
      using inv k by (intro store_inv_putI[OF inv le i distinct_update[OF d] new])
        (simp_all add: al_def[symmetric] alist_update_length store_inv_def)
    then show ?thesis
      using True task by (simp add: Update_unfold[OF wf] i_def[symmetric] al_def[symmetric] task'_def)
  qed
qed

lemma store_inv_Delete:
  assumes inv: "store_inv t ms"
  shows "store_inv t (snd (Delete ms tid))"
proof -
  define i where "i = shard_index ms tid"
  define al where "al = shard_entries (shards ms ! i)"
  have wf: "wf_shards ms" using inv by (rule store_inv_wf)
  have i: "i < length (shards ms)" and d: "distinct (map fst al)"
    using wf_shards_nth(1,3)[OF wf, of tid] by (auto simp: i_def al_def)
  have old: "\<forall>x \<in> snd ` set al. task_ok x \<and> UpdatedAt x \<le> t"
    using tasks_of_nth_subset[OF i] inv
    by (fastforce simp: al_def store_inv_def all_tasks_def list_all_iff)
  show ?thesis
  proof (cases "map_of al tid")
    case None
    then show ?thesis using inv by (simp add: Delete_unfold[OF wf] i_def[symmetric] al_def[symmetric])
  next
    case (Some task)
    have new: "\<forall>x \<in> snd ` set (AList.delete tid al). task_ok x \<and> UpdatedAt x \<le> t"
      using alist_delete_set[of tid al] old by blast
    have len: "length (AList.delete tid al) < length al"
      using Some by (rule alist_delete_length)
    have pos: "0 < taskCount ms"
    proof -
      have "length al \<le> length (all_tasks ms)"
        using put_shard_tasks_length[OF i, of "[]"] by (simp add: al_def)
      then show ?thesis using len inv by (simp add: store_inv_def)
    qed
    have w: "wrap64 (taskCount ms - 1) = taskCount ms - 1"
      using store_inv_count[OF inv] pos by (intro wrap64_id) (simp add: is_int64_def)
    have "store_inv t (ms\<lparr>shards := put_shard ms i (AList.delete tid al),
        taskCount := taskCount ms - 1\<rparr>)"
      using inv len by (intro store_inv_putI[OF inv order_refl i distinct_delete[OF d] new])
        (simp_all add: al_def[symmetric] store_inv_def)
    then show ?thesis
      using Some by (simp add: Delete_unfold[OF wf] i_def[symmetric] al_def[symmetric] w)
  qed
qed

lemma clear_shards_ok:
  "list_all shard_ok shs \<Longrightarrow>
   clear_shards shs = (None, replicate (length shs) new_shard)"
  by (induction shs) (auto simp: new_shard_def dest!: shard_ok_Some)

lemma tasks_of_replicate_new: "tasks_of (replicate n new_shard) = []"
  by (induction n) (simp_all add: tasks_of_def new_shard_def shard_entries_def entries_def)

lemma Clear_unfold:
  "wf_shards ms \<Longrightarrow>
   Clear ms = (None, ms\<lparr>shards := replicate (length (shards ms)) new_shard, taskCount := 0\<rparr>)"
  by (simp add: Clear_def clear_shards_ok wf_shards_def)

lemma shard_ok_new: "shard_ok new_shard"
  by (simp add: shard_ok_def new_shard_def)

lemma store_inv_Clear:
  assumes inv: "store_inv t ms"
  shows "store_inv t (snd (Clear ms))"
  using inv
  by (simp add: Clear_unfold[OF store_inv_wf[OF inv]] store_inv_def all_tasks_def
      tasks_of_replicate_new list_all_length shard_ok_new)

lemma reachable_inv: "reachable t ms \<Longrightarrow> store_inv t ms"
proof (induction rule: reachable.induct)
  case (fresh n t)
  then show ?case by (rule store_inv_fresh)
next
  case (create t ms now taskID req)
  then show ?case by (simp add: store_inv_Create)
next
  case (update t ms now tid upd)
  then show ?case by (simp add: store_inv_Update)
next
  case (delete t ms tid)
  then show ?case by (simp add: store_inv_Delete)
next
  case (clear t ms)
  then show ?case by (simp add: store_inv_Clear)
qed


section \<open>Failed writes\<close>

text \<open>
  C9. A \<open>Create\<close>, \<open>Update\<close> or \<open>Delete\<close> that returns an error (a panic included)
  leaves the store as it was: the shards with all their records and the counter that
  \<open>Count\<close> reads are fields of the store, which is returned unchanged.
\<close>

theorem failed_write_leaves_store:
  "(isl (fst (Create now taskID ms req)) \<longrightarrow> snd (Create now taskID ms req) = ms)
   \<and> (isl (fst (Update now ms tid upd)) \<longrightarrow> snd (Update now ms tid upd) = ms)
   \<and> (fst (Delete ms key) \<noteq> None \<longrightarrow> snd (Delete ms key) = ms)"
proof (intro conjI impI)
  assume "isl (fst (Create now taskID ms req))"
  then show "snd (Create now taskID ms req) = ms"
    by (auto simp: Create_def Let_def split: option.splits sum.splits if_splits)
next
  assume "isl (fst (Update now ms tid upd))"
  then show "snd (Update now ms tid upd) = ms"
    by (auto simp: Update_def Let_def split: option.splits sum.splits if_splits)
next
  assume "fst (Delete ms key) \<noteq> None"
  then show "snd (Delete ms key) = ms"
    by (auto simp: Delete_def Let_def split: option.splits sum.splits if_splits)
qed

theorem failed_write_leaves_store_witness:
  "fst (Create 2 id_2 store_1 req_A) = Inl CapacityExceeded
   \<and> snd (Create 2 id_2 store_1 req_A) = store_1
   \<and> fst (Update 2 store_1 id_1 upd_none) = Inl NoOpUpdate
   \<and> snd (Update 2 store_1 id_1 upd_none) = store_1
   \<and> fst (Delete store_1 id_2) = Some (NotFound id_2)
   \<and> snd (Delete store_1 id_2) = store_1"
proof -
  have c: "fst (Create 2 id_2 store_1 req_A) = Inl CapacityExceeded" by code_simp
  have u: "fst (Update 2 store_1 id_1 upd_none) = Inl NoOpUpdate" by code_simp
  have d: "fst (Delete store_1 id_2) = Some (NotFound id_2)" by code_simp
  show ?thesis
    using failed_write_leaves_store[of 2 id_2 store_1 req_A id_1 upd_none id_2] c u d
    by simp
qed

section \<open>Order of the checks\<close>

lemma Update_NotFound_iff:
  "fst (Update now ms tid upd) = Inl (NotFound k) \<longleftrightarrow>
     Validate_update upd = None \<and> HasUpdates upd \<and> GetByID ms tid = Inl (NotFound k)"
  by (auto simp: Update_def GetByID_def Let_def split: option.splits sum.splits)

text \<open>
  C10. \<open>Create\<close> validates before it looks at the counter: an invalid request is
  answered with the validation error on every store, a full one included. \<open>Update\<close>
  validates first, then rejects a request without fields, and only then looks the
  identifier up: \<open>NotFound\<close> comes back only for a valid request with at least one
  field on an identifier that \<open>GetByID\<close> does not find either.
\<close>

theorem error_precedence:
  "(Validate req = Some e \<longrightarrow> Create now taskID ms req = (Inl (ValidationError e), ms))
   \<and> (Validate_update upd = Some e \<longrightarrow> Update now ms tid upd = (Inl (ValidationError e), ms))
   \<and> (Validate_update upd = None \<and> \<not> HasUpdates upd \<longrightarrow>
        Update now ms tid upd = (Inl NoOpUpdate, ms))
   \<and> (fst (Update now ms tid upd) = Inl (NotFound k) \<longrightarrow>
        Validate_update upd = None \<and> HasUpdates upd \<and> k = tid
        \<and> GetByID ms tid = Inl (NotFound tid))"
proof (intro conjI impI)
  assume "fst (Update now ms tid upd) = Inl (NotFound k)"
  then have *: "Validate_update upd = None \<and> HasUpdates upd \<and> GetByID ms tid = Inl (NotFound k)"
    by (simp add: Update_NotFound_iff)
  then show "Validate_update upd = None" "HasUpdates upd" by simp_all
  from * show "k = tid"
    by (auto simp: GetByID_def Let_def getShard_def split: option.splits sum.splits if_splits)
  with * show "GetByID ms tid = Inl (NotFound tid)" by simp
qed (simp_all add: Create_def Update_def)

theorem error_precedence_witness:
  "Validate req_bad = Some EmptyName
   \<and> maxTasks store_1 \<le> Count store_1
   \<and> Create 2 id_2 store_1 req_bad = (Inl (ValidationError EmptyName), store_1)
   \<and> Validate_update upd_bad = Some EmptyName
   \<and> Update 2 store_1 id_2 upd_bad = (Inl (ValidationError EmptyName), store_1)
   \<and> Validate_update upd_none = None \<and> \<not> HasUpdates upd_none
   \<and> GetByID store_1 id_2 = Inl (NotFound id_2)
   \<and> Update 2 store_1 id_2 upd_none = (Inl NoOpUpdate, store_1)
   \<and> fst (Update 2 store_1 id_2 upd_name) = Inl (NotFound id_2)
   \<and> Validate_update upd_name = None \<and> HasUpdates upd_name"
proof -
  have v: "Validate req_bad = Some EmptyName" by code_simp
  have f: "maxTasks store_1 \<le> Count store_1" by code_simp
  have vu: "Validate_update upd_bad = Some EmptyName" by code_simp
  have n: "Validate_update upd_none = None \<and> \<not> HasUpdates upd_none" by code_simp
  have g: "GetByID store_1 id_2 = Inl (NotFound id_2)" by code_simp
  have nf: "fst (Update 2 store_1 id_2 upd_name) = Inl (NotFound id_2)" by code_simp
  show ?thesis
    using error_precedence[of req_bad EmptyName 2 id_2 store_1 upd_bad id_2 id_2]
      error_precedence[of req_bad EmptyName 2 id_2 store_1 upd_none id_2 id_2]
      error_precedence[of req_bad EmptyName 2 id_2 store_1 upd_name id_2 id_2]
      v f vu n g nf
    by simp
qed

section \<open>Construction\<close>

lemma check_shards_replicate: "check_shards (replicate n new_shard) = None"
  by (induction n) (simp_all add: new_shard_def)

lemma length_clear_shards: "length (snd (clear_shards shs)) = length shs"
  by (induction shs rule: clear_shards.induct) (auto split: prod.splits)

lemma Create_frame:
  "shardCount (snd (Create now taskID ms req)) = shardCount ms"
  "maxTasks (snd (Create now taskID ms req)) = maxTasks ms"
  "length (shards (snd (Create now taskID ms req))) = length (shards ms)"
  by (auto simp: Create_def Let_def split: option.splits sum.splits)

lemma Update_frame:
  "shardCount (snd (Update now ms tid upd)) = shardCount ms"
  "maxTasks (snd (Update now ms tid upd)) = maxTasks ms"
  "length (shards (snd (Update now ms tid upd))) = length (shards ms)"
  by (auto simp: Update_def Let_def split: option.splits sum.splits)

lemma Delete_frame:
  "shardCount (snd (Delete ms tid)) = shardCount ms"
  "maxTasks (snd (Delete ms tid)) = maxTasks ms"
  "length (shards (snd (Delete ms tid))) = length (shards ms)"
  by (auto simp: Delete_def Let_def split: option.splits sum.splits)

lemma Clear_frame:
  "shardCount (snd (Clear ms)) = shardCount ms"
  "maxTasks (snd (Clear ms)) = maxTasks ms"
  "length (shards (snd (Clear ms))) = length (shards ms)"
  using length_clear_shards[of "shards ms"]
  by (auto simp: Clear_def split: option.splits prod.splits)

lemma reachable_frame:
  "reachable t ms \<Longrightarrow>
   \<exists>n. shardCount ms = shardCount (NewMemoryStorage n) \<and> maxTasks ms = maxTasks (NewMemoryStorage n)"
  by (induction rule: reachable.induct)
    (auto simp: Create_frame Update_frame Delete_frame Clear_frame)

lemma check_shards_ok: "list_all shard_ok shs \<Longrightarrow> check_shards shs = None"
  by (induction shs rule: check_shards.induct) (auto simp: shard_ok_def split: option.splits)

text \<open>
  C8. A ceiling of zero or less is replaced by 10000. The shard count follows from the
  resulting ceiling: 8 below 1000, 64 above 100000, 32 otherwise. Every shard starts with
  an allocated empty map, the counter at zero, and \<open>HealthCheck\<close> passes. No
  operation changes the shard count or the ceiling afterwards, and the store stays
  healthy.
\<close>

theorem NewMemoryStorage_construction:
  "maxTasks (NewMemoryStorage n) = (if n \<le> 0 then 10000 else n)
   \<and> shardCount (NewMemoryStorage n) =
        (if maxTasks (NewMemoryStorage n) < 1000 then 8
         else if maxTasks (NewMemoryStorage n) > 100000 then 64 else 32)
   \<and> shards (NewMemoryStorage n) =
        replicate (unat (shardCount (NewMemoryStorage n))) (Some \<lparr>tasks = Some []\<rparr>)
   \<and> Count (NewMemoryStorage n) = 0
   \<and> HealthCheck (NewMemoryStorage n) = None
   \<and> (reachable t ms \<longrightarrow>
        (\<exists>m. shardCount ms = shardCount (NewMemoryStorage m)
            \<and> maxTasks ms = maxTasks (NewMemoryStorage m))
        \<and> length (shards ms) = unat (shardCount ms)
        \<and> HealthCheck ms = None)"
proof -
  have a: "maxTasks (NewMemoryStorage n) = (if n \<le> 0 then 10000 else n)"
    by (simp add: NewMemoryStorage_def Let_def)
  have b: "shardCount (NewMemoryStorage n) =
        (if maxTasks (NewMemoryStorage n) < 1000 then 8
         else if maxTasks (NewMemoryStorage n) > 100000 then 64 else 32)"
    by (simp add: NewMemoryStorage_def Let_def)
  have c: "shards (NewMemoryStorage n) =
        replicate (unat (shardCount (NewMemoryStorage n))) new_shard"
    by (simp add: NewMemoryStorage_def Let_def)
  have d: "Count (NewMemoryStorage n) = 0"
    by (simp add: NewMemoryStorage_def Let_def Count_def)
  have "length (shards (NewMemoryStorage n)) \<noteq> 0"
    by (simp add: NewMemoryStorage_def Let_def)
  then have e: "HealthCheck (NewMemoryStorage n) = None"
    using c by (simp add: HealthCheck_def check_shards_replicate)
  have f: "(\<exists>m. shardCount ms = shardCount (NewMemoryStorage m)
            \<and> maxTasks ms = maxTasks (NewMemoryStorage m))
        \<and> length (shards ms) = unat (shardCount ms)
        \<and> HealthCheck ms = None" if r: "reachable t ms"
  proof -
    have wf: "wf_shards ms" using r by (intro store_inv_wf reachable_inv)
    then have "length (shards ms) \<noteq> 0" by (simp add: wf_shards_def unat_eq_0)
    then have "HealthCheck ms = None"
      using wf by (simp add: HealthCheck_def check_shards_ok wf_shards_def unat_gt_0)
    with wf reachable_frame[OF r] show ?thesis by (simp add: wf_shards_def)
  qed
  from a b c d e f show ?thesis by (simp add: new_shard_def)
qed

lemma reachable_store_1: "reachable 1 store_1"
  unfolding store_1_def
  by (rule reachable.create[of 0]) (simp_all add: reachable.fresh is_int64_def)

lemma reachable_store_2: "reachable 2 store_2"
proof -
  have "reachable 1 (snd (Create 1 id_1 (NewMemoryStorage 2) req_A))"
    by (rule reachable.create[of 0]) (simp_all add: reachable.fresh is_int64_def)
  then show ?thesis
    unfolding store_2_def by (rule reachable.create) simp
qed

theorem NewMemoryStorage_construction_witness:
  "maxTasks (NewMemoryStorage (- 5)) = 10000
   \<and> shardCount (NewMemoryStorage (- 5)) = 32
   \<and> shardCount (NewMemoryStorage 999) = 8
   \<and> shardCount (NewMemoryStorage 1000) = 32
   \<and> shardCount (NewMemoryStorage 100000) = 32
   \<and> shardCount (NewMemoryStorage 100001) = 64
   \<and> shards (NewMemoryStorage 999) = replicate 8 (Some \<lparr>tasks = Some []\<rparr>)
   \<and> HealthCheck (NewMemoryStorage 999) = None
   \<and> reachable 2 store_2
   \<and> shardCount store_2 = 8 \<and> length (shards store_2) = 8 \<and> HealthCheck store_2 = None"
proof -
  have s: "shardCount store_2 = 8" by code_simp
  show ?thesis
    using NewMemoryStorage_construction[of "- 5" 2 store_2]
      NewMemoryStorage_construction[of 999 2 store_2]
      NewMemoryStorage_construction[of 1000 2 store_2]
      NewMemoryStorage_construction[of 100000 2 store_2]
      NewMemoryStorage_construction[of 100001 2 store_2]
      reachable_store_2 s
    by simp
qed

section \<open>Shard selection and the round trip\<close>

lemma of_char_less_256: "(of_char c :: nat) < 256"
proof -
  have "(of_char c :: nat) mod 256 < 256" by simp
  then show ?thesis by (simp only: of_char_mod_256)
qed

lemma unat_of_char: "unat (of_char c :: 32 word) = of_char c"
proof -
  have "(of_char c :: nat) < 4294967296"
    using of_char_less_256[of c] by linarith
  then have "unat (of_nat (of_char c) :: 32 word) = of_char c"
    by (simp add: unat_of_nat)
  then show ?thesis by (simp add: of_nat_of_char)
qed

lemma fnv32_loop_spec:
  "unat (fnv32_loop h key) =
     foldl (\<lambda>h b. ((h XOR b) * 16777619) mod 2 ^ 32) (unat h) (map of_char key)"
proof (induction key arbitrary: h)
  case Nil
  then show ?case by simp
next
  case (Cons c cs)
  have "unat ((h XOR of_char c) * 16777619) = ((unat h XOR of_char c) * 16777619) mod 2 ^ 32"
    by (simp add: unat_word_ariths unsigned_xor_eq unat_of_char)
  then show ?case by (simp add: Cons.IH)
qed

lemma fnv32Hash_spec: "unat (fnv32Hash key) = fnv1a_32_spec key"
  by (simp add: fnv32Hash_def fnv1a_32_spec_def fnv32_loop_spec)

lemma getShard_InrD:
  assumes "getShard ms key = Inr i"
  shows "i < length (shards ms)" "shardCount ms \<noteq> 0"
    "i = unat (fnv32Hash key) mod unat (shardCount ms)"
  using assms by (auto simp: getShard_def Let_def unat_mod split: if_splits)

lemma getShard_cong:
  "shardCount ms' = shardCount ms \<Longrightarrow> length (shards ms') = length (shards ms) \<Longrightarrow>
   getShard ms' key = getShard ms key"
  by (simp add: getShard_def)

lemma Create_InrD:
  assumes "Create now taskID ms req = (Inr task, ms')"
  shows "task = (NewTask now (req_Name req) (req_Status req))\<lparr>ID := taskID\<rparr>"
    and "Validate req = None"
    and "taskCount ms < maxTasks ms"
    and "\<exists>i sh al. getShard ms taskID = Inr i \<and> shards ms ! i = Some sh \<and> tasks sh = Some al
          \<and> ms' = ms\<lparr>shards := (shards ms)[i := Some (sh\<lparr>tasks := Some (AList.update taskID task al)\<rparr>)],
                      taskCount := wrap64 (taskCount ms + 1)\<rparr>"
  using assms
  by (auto simp: Create_def Let_def split: option.splits sum.splits if_splits)

lemma Create_stored:
  assumes "Create now taskID ms req = (Inr task, ms')"
  shows "\<exists>i sh. getShard ms' taskID = Inr i \<and> shards ms' ! i = Some sh
           \<and> map_of (entries (tasks sh)) taskID = Some task"
proof -
  obtain i sh al where g: "getShard ms taskID = Inr i"
    and ms': "ms' = ms\<lparr>shards := (shards ms)[i := Some (sh\<lparr>tasks := Some (AList.update taskID task al)\<rparr>)],
                      taskCount := wrap64 (taskCount ms + 1)\<rparr>"
    using Create_InrD(4)[OF assms] by blast
  have i: "i < length (shards ms)" using g by (rule getShard_InrD)
  have "getShard ms' taskID = getShard ms taskID"
    by (rule getShard_cong) (simp_all add: ms')
  then have "getShard ms' taskID = Inr i"
    using g by simp
  moreover have "shards ms' ! i = Some (sh\<lparr>tasks := Some (AList.update taskID task al)\<rparr>)"
    using i by (simp add: ms')
  ultimately show ?thesis by (simp add: entries_def update_conv')
qed

lemma Create_then_GetByID:
  "Create now taskID ms req = (Inr task, ms') \<Longrightarrow> GetByID ms' taskID = Inr task"
  using Create_stored[of now taskID ms req task ms'] by (auto simp: GetByID_def)

lemma Create_then_Update:
  assumes "Create now taskID ms req = (Inr task, ms')"
    and "Validate_update upd = None" "HasUpdates upd"
  shows "fst (Update now' ms' taskID upd) = Inr (ApplyTo now' upd task)"
  using Create_stored[OF assms(1)] assms(2,3) by (auto simp: Update_def Let_def)

lemma Create_then_Delete:
  "Create now taskID ms req = (Inr task, ms') \<Longrightarrow> fst (Delete ms' taskID) = None"
  using Create_stored[of now taskID ms req task ms'] by (auto simp: Delete_def)

text \<open>
  C2. When \<open>Create\<close> succeeds, \<open>GetByID\<close> on the identifier of the returned
  record yields that record: name and status are those of the request and both time
  stamps are the clock reading of the call. They differ from the zero time as soon as the
  clock reading does, which is the one thing asked of the clock here. A successful
  \<open>Create\<close> implies a valid request, so validity needs no separate hypothesis.
\<close>

theorem create_get_roundtrip:
  assumes "Create now taskID ms req = (Inr task, ms')" and "\<not> IsZero now"
  shows "GetByID ms' (ID task) = Inr task
    \<and> Name task = req_Name req \<and> Status task = req_Status req
    \<and> CreatedAt task = now \<and> UpdatedAt task = now
    \<and> \<not> IsZero (CreatedAt task) \<and> \<not> IsZero (UpdatedAt task)"
proof -
  have t: "task = (NewTask now (req_Name req) (req_Status req))\<lparr>ID := taskID\<rparr>"
    using assms(1) by (rule Create_InrD)
  then have "ID task = taskID" by simp
  then have "GetByID ms' (ID task) = Inr task"
    using Create_then_GetByID[OF assms(1)] by simp
  then show ?thesis using assms(2) by (simp add: t NewTask_def)
qed

theorem create_get_roundtrip_witness:
  "Create 1 id_1 (NewMemoryStorage 1) req_A = (Inr task_A, store_1) \<and> \<not> IsZero 1
   \<and> GetByID store_1 id_1 = Inr task_A
   \<and> Name task_A = ''A'' \<and> Status task_A = TaskIncomplete
   \<and> \<not> IsZero (CreatedAt task_A) \<and> \<not> IsZero (UpdatedAt task_A)"
proof -
  have c: "Create 1 id_1 (NewMemoryStorage 1) req_A = (Inr task_A, store_1)" by code_simp
  have z: "\<not> IsZero 1" by (simp add: IsZero_def)
  have i: "ID task_A = id_1" by (simp add: task_A_def)
  show ?thesis
    using create_get_roundtrip[OF c z] c z by (simp add: i req_A_def)
qed

section \<open>Updates\<close>

lemma GetByID_mem:
  assumes "wf_shards ms" "GetByID ms tid = Inr task"
  shows "task \<in> set (all_tasks ms)"
proof -
  have "map_of (shard_entries (shards ms ! shard_index ms tid)) tid = Some task"
    using assms by (simp add: GetByID_unfold split: option.splits)
  then have "task \<in> snd ` set (shard_entries (shards ms ! shard_index ms tid))"
    by (force dest: map_of_SomeD)
  then show ?thesis
    using tasks_of_nth_subset[OF wf_shards_nth(1)[OF assms(1), of tid]]
    by (auto simp: all_tasks_def)
qed

lemma Update_found:
  assumes wf: "wf_shards ms" and g: "GetByID ms tid = Inr old"
    and v: "Validate_update upd = None" and h: "HasUpdates upd"
  shows "\<exists>ms'. Update now ms tid upd = (Inr (ApplyTo now upd old), ms')
           \<and> GetByID ms' tid = Inr (ApplyTo now upd old)"
proof -
  define i where "i = shard_index ms tid"
  define al where "al = shard_entries (shards ms ! i)"
  define new where "new = ApplyTo now upd old"
  define ms' where "ms' = ms\<lparr>shards := put_shard ms i (AList.update tid new al)\<rparr>"
  have i: "i < length (shards ms)" and d: "distinct (map fst al)"
    using wf_shards_nth(1,3)[OF wf, of tid] by (auto simp: i_def al_def)
  have old: "map_of al tid = Some old"
    using g by (simp add: GetByID_unfold[OF wf] i_def al_def split: option.splits)
  have u: "Update now ms tid upd = (Inr new, ms')"
    using v h old by (simp add: Update_unfold[OF wf] i_def[symmetric] al_def[symmetric] new_def ms'_def)
  have wf': "wf_shards ms'"
    unfolding ms'_def using wf distinct_update[OF d] by (rule put_shard_wf(2))
  have "shard_index ms' tid = i" by (simp add: shard_index_def ms'_def i_def)
  moreover have "shard_entries (shards ms' ! i) = AList.update tid new al"
    using i by (simp add: ms'_def put_shard_def shard_entries_def entries_def)
  ultimately have "GetByID ms' tid = Inr new"
    by (simp add: GetByID_unfold[OF wf'] update_conv')
  with u show ?thesis by (auto simp: new_def)
qed

text \<open>
  C3. In a reachable store, with a clock that has not run backwards: a valid update with
  at least one field on a stored record succeeds and is what \<open>GetByID\<close> returns
  afterwards; a field that is not supplied keeps its value and a supplied one takes the
  new value; identifier and creation time stay; the update time becomes the clock reading,
  which is not before the previous update time. The same request on an identifier that
  is not stored returns \<open>NotFound\<close>, and a request without fields returns
  \<open>NoOpUpdate\<close>, on any identifier.
\<close>

theorem update_semantics:
  assumes "reachable t ms" and "t \<le> now"
  shows "(\<forall>old. GetByID ms tid = Inr old \<and> Validate_update upd = None \<and> HasUpdates upd \<longrightarrow>
            (\<exists>new ms'. Update now ms tid upd = (Inr new, ms') \<and> GetByID ms' tid = Inr new
               \<and> (upd_Status upd = None \<longrightarrow> Status new = Status old)
               \<and> (upd_Name upd = None \<longrightarrow> Name new = Name old)
               \<and> (\<forall>n. upd_Name upd = Some n \<longrightarrow> Name new = n)
               \<and> (\<forall>s. upd_Status upd = Some s \<longrightarrow> Status new = s)
               \<and> ID new = ID old \<and> CreatedAt new = CreatedAt old
               \<and> UpdatedAt old \<le> UpdatedAt new \<and> UpdatedAt new = now))
     \<and> (GetByID ms tid = Inl (NotFound tid) \<and> Validate_update upd = None \<and> HasUpdates upd \<longrightarrow>
            Update now ms tid upd = (Inl (NotFound tid), ms))
     \<and> (\<not> HasUpdates upd \<longrightarrow> Update now ms tid upd = (Inl NoOpUpdate, ms))"
proof (intro conjI allI impI)
  have inv: "store_inv t ms" using assms(1) by (rule reachable_inv)
  then have wf: "wf_shards ms" by (rule store_inv_wf)
  {
    fix old
    assume a: "GetByID ms tid = Inr old \<and> Validate_update upd = None \<and> HasUpdates upd"
    then obtain ms' where u: "Update now ms tid upd = (Inr (ApplyTo now upd old), ms')"
      "GetByID ms' tid = Inr (ApplyTo now upd old)"
      using Update_found[OF wf, of tid old upd now] by blast
    have "old \<in> set (all_tasks ms)" using a GetByID_mem[OF wf] by blast
    then have "UpdatedAt old \<le> t" using inv by (simp add: store_inv_def list_all_iff)
    then have "UpdatedAt old \<le> now" using assms(2) by simp
    then show "\<exists>new ms'. Update now ms tid upd = (Inr new, ms') \<and> GetByID ms' tid = Inr new
               \<and> (upd_Status upd = None \<longrightarrow> Status new = Status old)
               \<and> (upd_Name upd = None \<longrightarrow> Name new = Name old)
               \<and> (\<forall>n. upd_Name upd = Some n \<longrightarrow> Name new = n)
               \<and> (\<forall>s. upd_Status upd = Some s \<longrightarrow> Status new = s)
               \<and> ID new = ID old \<and> CreatedAt new = CreatedAt old
               \<and> UpdatedAt old \<le> UpdatedAt new \<and> UpdatedAt new = now"
      using u a by (simp add: ApplyTo_fields)
  }
  {
    assume "GetByID ms tid = Inl (NotFound tid) \<and> Validate_update upd = None \<and> HasUpdates upd"
    then show "Update now ms tid upd = (Inl (NotFound tid), ms)"
      by (simp add: Update_unfold[OF wf] GetByID_unfold[OF wf] split: option.splits)
  }
  {
    assume "\<not> HasUpdates upd"
    then show "Update now ms tid upd = (Inl NoOpUpdate, ms)"
      by (simp add: Update_def HasUpdates_def Validate_update_def)
  }
qed


theorem update_semantics_witness:
  "reachable 1 store_1 \<and> (1::int) \<le> 2
   \<and> GetByID store_1 id_1 = Inr task_A
   \<and> Validate_update upd_name = None \<and> HasUpdates upd_name
   \<and> (\<exists>new ms'. Update 2 store_1 id_1 upd_name = (Inr new, ms') \<and> GetByID ms' id_1 = Inr new
         \<and> Status new = Status task_A \<and> Name new = ''C''
         \<and> ID new = ID task_A \<and> CreatedAt new = CreatedAt task_A
         \<and> UpdatedAt task_A \<le> UpdatedAt new \<and> UpdatedAt new = 2)
   \<and> Validate_update upd_status = None \<and> HasUpdates upd_status
   \<and> (\<exists>new ms'. Update 2 store_1 id_1 upd_status = (Inr new, ms') \<and> GetByID ms' id_1 = Inr new
         \<and> Name new = Name task_A \<and> Status new = TaskCompleted
         \<and> ID new = ID task_A \<and> CreatedAt new = CreatedAt task_A
         \<and> UpdatedAt task_A \<le> UpdatedAt new \<and> UpdatedAt new = 2)
   \<and> GetByID store_1 id_2 = Inl (NotFound id_2)
   \<and> Update 2 store_1 id_2 upd_status = (Inl (NotFound id_2), store_1)
   \<and> \<not> HasUpdates upd_none
   \<and> Update 2 store_1 id_1 upd_none = (Inl NoOpUpdate, store_1)"
proof -
  have le: "(1::int) \<le> 2" by simp
  have g: "GetByID store_1 id_1 = Inr task_A" by code_simp
  have n: "Validate_update upd_name = None \<and> HasUpdates upd_name" by code_simp
  have s: "Validate_update upd_status = None \<and> HasUpdates upd_status" by code_simp
  have nf: "GetByID store_1 id_2 = Inl (NotFound id_2)" by code_simp
  have no: "\<not> HasUpdates upd_none" by code_simp
  have f: "upd_Status upd_name = None" "upd_Name upd_name = Some ''C''"
    "upd_Name upd_status = None" "upd_Status upd_status = Some TaskCompleted"
    by (simp_all add: upd_name_def upd_status_def)
  note a = update_semantics[OF reachable_store_1 le, of id_1 upd_name]
  note b = update_semantics[OF reachable_store_1 le, of id_1 upd_status]
  note c = update_semantics[OF reachable_store_1 le, of id_2 upd_status]
  note d = update_semantics[OF reachable_store_1 le, of id_1 upd_none]
  have 1: "\<exists>new ms'. Update 2 store_1 id_1 upd_name = (Inr new, ms') \<and> GetByID ms' id_1 = Inr new
         \<and> Status new = Status task_A \<and> Name new = ''C''
         \<and> ID new = ID task_A \<and> CreatedAt new = CreatedAt task_A
         \<and> UpdatedAt task_A \<le> UpdatedAt new \<and> UpdatedAt new = 2"
    using a g n f by simp
  have 2: "\<exists>new ms'. Update 2 store_1 id_1 upd_status = (Inr new, ms') \<and> GetByID ms' id_1 = Inr new
         \<and> Name new = Name task_A \<and> Status new = TaskCompleted
         \<and> ID new = ID task_A \<and> CreatedAt new = CreatedAt task_A
         \<and> UpdatedAt task_A \<le> UpdatedAt new \<and> UpdatedAt new = 2"
    using b g s f by simp
  have 3: "Update 2 store_1 id_2 upd_status = (Inl (NotFound id_2), store_1)"
    using c nf s by simp
  have 4: "Update 2 store_1 id_1 upd_none = (Inl NoOpUpdate, store_1)"
    using d no by simp
  show ?thesis
    using reachable_store_1 le g n s nf no 1 2 3 4 by simp
qed

section \<open>Capacity\<close>

lemma wf_shards_fresh: "wf_shards (NewMemoryStorage n)"
  by (simp add: wf_shards_def NewMemoryStorage_def Let_def list_all_length shard_ok_new)

lemma Create_below_ceiling:
  assumes wf: "wf_shards ms" and v: "Validate req = None"
    and c: "0 \<le> taskCount ms" "taskCount ms < maxTasks ms" "maxTasks ms < 2 ^ 63"
  shows "\<exists>task ms'. Create now taskID ms req = (Inr task, ms') \<and> wf_shards ms'
            \<and> taskCount ms' = taskCount ms + 1 \<and> maxTasks ms' = maxTasks ms"
proof -
  define i where "i = shard_index ms taskID"
  define al where "al = shard_entries (shards ms ! i)"
  define task where "task = (NewTask now (req_Name req) (req_Status req))\<lparr>ID := taskID\<rparr>"
  define ms' where "ms' = ms\<lparr>shards := put_shard ms i (AList.update taskID task al),
      taskCount := wrap64 (taskCount ms + 1)\<rparr>"
  have d: "distinct (map fst al)"
    using wf_shards_nth(3)[OF wf, of taskID] by (auto simp: i_def al_def)
  have w: "wrap64 (taskCount ms + 1) = taskCount ms + 1"
    using c by (intro wrap64_id) (simp add: is_int64_def)
  have "Create now taskID ms req = (Inr task, ms')"
    using v c by (simp add: Create_unfold[OF wf] i_def al_def task_def ms'_def)
  moreover have "wf_shards ms'"
    unfolding ms'_def using wf distinct_update[OF d] by (rule put_shard_wf(1))
  ultimately show ?thesis by (auto simp: ms'_def w)
qed

lemma Delete_at_count:
  assumes wf: "wf_shards ms" and d: "Delete ms key = (None, ms')"
    and c: "0 < taskCount ms" "taskCount ms < 2 ^ 63"
  shows "wf_shards ms' \<and> taskCount ms' = taskCount ms - 1 \<and> maxTasks ms' = maxTasks ms"
proof -
  define i where "i = shard_index ms key"
  define al where "al = shard_entries (shards ms ! i)"
  have dist: "distinct (map fst al)"
    using wf_shards_nth(3)[OF wf, of key] by (auto simp: i_def al_def)
  have w: "wrap64 (taskCount ms - 1) = taskCount ms - 1"
    using c by (intro wrap64_id) (simp add: is_int64_def)
  have "ms' = ms\<lparr>shards := put_shard ms i (AList.delete key al), taskCount := taskCount ms - 1\<rparr>"
    using d by (auto simp: Delete_unfold[OF wf] i_def al_def w split: option.splits)
  moreover have "wf_shards (ms\<lparr>shards := put_shard ms i (AList.delete key al),
      taskCount := taskCount ms - 1\<rparr>)"
    using wf distinct_delete[OF dist] by (rule put_shard_wf(1))
  ultimately show ?thesis by simp
qed

lemma create_seq_below_ceiling:
  assumes "wf_shards ms" "0 \<le> taskCount ms"
    and "taskCount ms + int (length cs) \<le> maxTasks ms" "maxTasks ms < 2 ^ 63"
    and "\<forall>c \<in> set cs. Validate (snd (snd c)) = None"
    and "create_seq cs ms = (rs, ms')"
  shows "(\<forall>r \<in> set rs. \<not> isl r) \<and> length rs = length cs \<and> wf_shards ms'
         \<and> taskCount ms' = taskCount ms + int (length cs) \<and> maxTasks ms' = maxTasks ms"
  using assms
proof (induction cs arbitrary: ms rs)
  case Nil
  then show ?case by simp
next
  case (Cons c cs)
  obtain now taskID req where c: "c = (now, taskID, req)" by (cases c)
  have v: "Validate req = None" using Cons.prems(5) by (simp add: c)
  obtain task ms1 where cr: "Create now taskID ms req = (Inr task, ms1)" and wf1: "wf_shards ms1"
    and c1: "taskCount ms1 = taskCount ms + 1" and m1: "maxTasks ms1 = maxTasks ms"
    using Create_below_ceiling[OF Cons.prems(1) v Cons.prems(2) _ Cons.prems(4), of now taskID]
      Cons.prems(3) by auto
  obtain rs1 where rs: "create_seq cs ms1 = (rs1, ms')" "rs = Inr task # rs1"
    using Cons.prems(6) by (auto simp: c cr split: prod.splits)
  have "(\<forall>r \<in> set rs1. \<not> isl r) \<and> length rs1 = length cs \<and> wf_shards ms'
         \<and> taskCount ms' = taskCount ms1 + int (length cs) \<and> maxTasks ms' = maxTasks ms1"
    using Cons.prems(2,3,4,5) by (intro Cons.IH[OF wf1 _ _ _ _ rs(1)]) (simp_all add: c1 m1)
  then show ?case by (simp add: rs(2) c1 m1)
qed

lemma Create_CapacityExceeded_iff:
  "fst (Create now taskID ms req) = Inl CapacityExceeded \<longleftrightarrow>
     Validate req = None \<and> maxTasks ms \<le> Count ms"
  by (auto simp: Create_def Count_def Let_def getShard_def split: option.splits sum.splits)

text \<open>
  C1. \<open>Create\<close> answers \<open>CapacityExceeded\<close> exactly when the request is valid (the
  capacity check is reached) and the counter that \<open>Count\<close> reads is at or above the
  ceiling. A store built with a positive ceiling \<open>k\<close> has that ceiling. Run \<open>k\<close> valid
  creates on it: all succeed, the count is \<open>k\<close>, and one more valid create is rejected
  with \<open>CapacityExceeded\<close>; after any successful \<open>Delete\<close> the count is \<open>k - 1\<close>
  and a valid create succeeds again.
\<close>

theorem capacity_enforcement:
  assumes "0 < k" and "k < 2 ^ 63"
    and "length cs = nat k" and "\<forall>c \<in> set cs. Validate (snd (snd c)) = None"
    and "create_seq cs (NewMemoryStorage k) = (rs, full)"
  shows "maxTasks (NewMemoryStorage k) = k
    \<and> (fst (Create now taskID ms req) = Inl CapacityExceeded \<longleftrightarrow>
          Validate req = None \<and> maxTasks ms \<le> Count ms)
    \<and> (\<forall>r \<in> set rs. \<not> isl r) \<and> length rs = nat k
    \<and> maxTasks full = k \<and> Count full = k
    \<and> (Validate req = None \<longrightarrow> Create now taskID full req = (Inl CapacityExceeded, full))
    \<and> (\<forall>key ms'. Delete full key = (None, ms') \<and> Validate req = None \<longrightarrow>
          Count ms' = k - 1
          \<and> (\<exists>task ms''. Create now taskID ms' req = (Inr task, ms'') \<and> Count ms'' = k))"
proof -
  have m: "maxTasks (NewMemoryStorage k) = k" and z: "taskCount (NewMemoryStorage k) = 0"
    using assms(1) by (simp_all add: NewMemoryStorage_def Let_def)
  have run: "(\<forall>r \<in> set rs. \<not> isl r) \<and> length rs = length cs \<and> wf_shards full
         \<and> taskCount full = taskCount (NewMemoryStorage k) + int (length cs)
         \<and> maxTasks full = maxTasks (NewMemoryStorage k)"
    using assms(1,2,3)
    by (intro create_seq_below_ceiling[OF wf_shards_fresh _ _ _ assms(4,5)]) (simp_all add: m z)
  then have full: "wf_shards full" "taskCount full = k" "maxTasks full = k"
    using assms(1,3) by (simp_all add: m z)
  have rej: "Create now taskID full req = (Inl CapacityExceeded, full)" if "Validate req = None"
    using that full by (simp add: Create_unfold)
  have del: "Count ms' = k - 1
          \<and> (\<exists>task ms''. Create now taskID ms' req = (Inr task, ms'') \<and> Count ms'' = k)"
    if "Delete full key = (None, ms') \<and> Validate req = None" for key ms'
  proof -
    have d: "wf_shards ms' \<and> taskCount ms' = taskCount full - 1 \<and> maxTasks ms' = maxTasks full"
      using that assms(1,2) full by (intro Delete_at_count[of full key]) simp_all
    then have "\<exists>task ms''. Create now taskID ms' req = (Inr task, ms'') \<and> wf_shards ms''
            \<and> taskCount ms'' = taskCount ms' + 1 \<and> maxTasks ms'' = maxTasks ms'"
      using that assms(1,2) full by (intro Create_below_ceiling) simp_all
    with d full show ?thesis by (auto simp: Count_def)
  qed
  have cnt: "Count full = k" using full by (simp add: Count_def)
  have len: "length rs = nat k" using run assms(3) by simp
  have ok: "\<forall>r \<in> set rs. \<not> isl r" using run by simp
  note iff = Create_CapacityExceeded_iff[of now taskID ms req]
  show ?thesis
    using m iff ok len full(3) cnt rej del by blast
qed


theorem capacity_enforcement_witness:
  "(0::int) < 2 \<and> (2::int) < 2 ^ 63 \<and> length calls_2 = nat 2
   \<and> map (\<lambda>c. Validate (snd (snd c))) calls_2 = [None, None]
   \<and> create_seq calls_2 (NewMemoryStorage 2) = ([Inr task_A, Inr task_B], store_2)
   \<and> Validate req_A = None
   \<and> Count store_2 = 2
   \<and> Create 3 id_3 store_2 req_A = (Inl CapacityExceeded, store_2)
   \<and> Delete store_2 id_1 = (None, store_2_del)
   \<and> Count store_2_del = 1
   \<and> (\<exists>task ms''. Create 3 id_3 store_2_del req_A = (Inr task, ms'') \<and> Count ms'' = 2)"
proof -
  have k: "(0::int) < 2" "(2::int) < 2 ^ 63" by simp_all
  have l: "length calls_2 = nat 2" by (simp add: calls_2_def)
  have v: "\<forall>c \<in> set calls_2. Validate (snd (snd c)) = None" by code_simp
  have r: "create_seq calls_2 (NewMemoryStorage 2) = ([Inr task_A, Inr task_B], store_2)"
    by code_simp
  have a: "Validate req_A = None" by code_simp
  have d: "Delete store_2 id_1 = (None, store_2_del)" by code_simp
  note t = capacity_enforcement[OF k l v r, of 3 id_3 store_2 req_A]
  have 1: "Count store_2 = 2" using t by simp
  have 2: "Create 3 id_3 store_2 req_A = (Inl CapacityExceeded, store_2)" using t a by simp
  have 3: "Count store_2_del = 2 - 1
     \<and> (\<exists>task ms''. Create 3 id_3 store_2_del req_A = (Inr task, ms'') \<and> Count ms'' = 2)"
    using t a d by blast
  have m: "map (\<lambda>c. Validate (snd (snd c))) calls_2 = [None, None]" by code_simp
  show ?thesis
    using k l m r a d 1 2 3 by simp
qed

section \<open>Reading all shards\<close>

lemma collect_reachable:
  assumes "reachable t ms" "permutes ord"
  shows "\<exists>r. collect ord keep 0 (shards ms) [] = Inr r
           \<and> mset r = filter_mset keep (mset (all_tasks ms))"
proof -
  have "list_all shard_ok (shards ms)"
    using reachable_inv[OF assms(1)] by (simp add: store_inv_def)
  from collect_mset[OF assms(2) this, of keep 0 "[]"] show ?thesis
    by (simp add: all_tasks_def)
qed

lemma GetAll_reachable:
  assumes "reachable t ms" "permutes ord"
  shows "\<exists>r. GetAll ord ms = Inr r \<and> mset r = mset (all_tasks ms)"
proof -
  have "0 \<le> taskCount ms" using reachable_inv[OF assms(1)] by (rule store_inv_count[THEN conjunct1])
  then show ?thesis
    using collect_reachable[OF assms, of "\<lambda>task. True"] by (simp add: GetAll_def)
qed

lemma length_filter_split:
  "\<forall>x \<in> set xs. (P x \<or> Q x) \<and> \<not> (P x \<and> Q x) \<Longrightarrow>
   length (filter P xs) + length (filter Q xs) = length xs"
  by (induction xs) auto

lemma mset_eq_filter_length: "mset r = filter_mset P (mset xs) \<Longrightarrow> length r = length (filter P xs)"
  by (metis mset_filter size_mset)

text \<open>
  C5. In a reachable store, whatever orders the run time picks for the three calls:
  \<open>GetTasksByStatus\<close> for incomplete, for completed, and \<open>GetAll\<close> all return, and
  the two filtered results together are as many as \<open>GetAll\<close> returns; for every status
  \<open>s\<close>, every record \<open>GetTasksByStatus\<close> returns has status \<open>s\<close>.
\<close>

theorem status_filter:
  assumes "reachable t ms" and "permutes ord_i" and "permutes ord_c" and "permutes ord_a"
  shows "\<exists>inc com allT.
           GetTasksByStatus ord_i ms TaskIncomplete = Inr inc
         \<and> GetTasksByStatus ord_c ms TaskCompleted = Inr com
         \<and> GetAll ord_a ms = Inr allT
         \<and> length inc + length com = length allT
         \<and> (\<forall>s. \<exists>r. GetTasksByStatus ord_i ms s = Inr r \<and> (\<forall>task \<in> set r. Status task = s))"
proof -
  obtain inc where inc: "GetTasksByStatus ord_i ms TaskIncomplete = Inr inc"
      "mset inc = filter_mset (\<lambda>task. Status task = TaskIncomplete) (mset (all_tasks ms))"
    using collect_reachable[OF assms(1,2)] by (auto simp: GetTasksByStatus_def)
  obtain com where com: "GetTasksByStatus ord_c ms TaskCompleted = Inr com"
      "mset com = filter_mset (\<lambda>task. Status task = TaskCompleted) (mset (all_tasks ms))"
    using collect_reachable[OF assms(1,3)] by (auto simp: GetTasksByStatus_def)
  obtain allT where allT: "GetAll ord_a ms = Inr allT" "mset allT = mset (all_tasks ms)"
    using GetAll_reachable[OF assms(1,4)] by blast
  have "\<forall>x \<in> set (all_tasks ms). IsValid (Status x)"
    using reachable_inv[OF assms(1)] by (simp add: store_inv_def list_all_iff task_ok_def)
  then have "\<forall>x \<in> set (all_tasks ms).
      (Status x = TaskIncomplete \<or> Status x = TaskCompleted)
      \<and> \<not> (Status x = TaskIncomplete \<and> Status x = TaskCompleted)"
    by (auto simp: IsValid_def TaskIncomplete_def TaskCompleted_def)
  then have "length (filter (\<lambda>task. Status task = TaskIncomplete) (all_tasks ms))
      + length (filter (\<lambda>task. Status task = TaskCompleted) (all_tasks ms))
      = length (all_tasks ms)"
    by (rule length_filter_split)
  moreover have "length allT = length (all_tasks ms)"
    using allT(2) by (rule mset_eq_length)
  ultimately have len: "length inc + length com = length allT"
    using mset_eq_filter_length[OF inc(2)] mset_eq_filter_length[OF com(2)] by simp
  have each: "\<exists>r. GetTasksByStatus ord_i ms s = Inr r \<and> (\<forall>task \<in> set r. Status task = s)" for s
  proof -
    obtain r where r: "GetTasksByStatus ord_i ms s = Inr r"
      "mset r = filter_mset (\<lambda>task. Status task = s) (mset (all_tasks ms))"
      using collect_reachable[OF assms(1,2)] by (auto simp: GetTasksByStatus_def)
    have "set r = set_mset (filter_mset (\<lambda>task. Status task = s) (mset (all_tasks ms)))"
      using r(2) by (metis set_mset_mset)
    then show ?thesis using r(1) by auto
  qed
  show ?thesis using inc(1) com(1) allT(1) len each by blast
qed

lemma permutes_ord_id: "permutes ord_id"
  by (simp add: permutes_def ord_id_def)

lemma permutes_ord_rev: "permutes ord_rev"
  by (simp add: permutes_def ord_rev_def)

theorem status_filter_witness:
  "reachable 2 store_2 \<and> permutes ord_id \<and> permutes ord_rev
   \<and> GetTasksByStatus ord_id store_2 TaskIncomplete = Inr [task_A]
   \<and> GetTasksByStatus ord_rev store_2 TaskCompleted = Inr [task_B]
   \<and> GetAll ord_rev store_2 = Inr [task_A, task_B]
   \<and> (\<exists>inc com allT.
           GetTasksByStatus ord_id store_2 TaskIncomplete = Inr inc
         \<and> GetTasksByStatus ord_rev store_2 TaskCompleted = Inr com
         \<and> GetAll ord_rev store_2 = Inr allT
         \<and> length inc + length com = length allT
         \<and> (\<forall>s. \<exists>r. GetTasksByStatus ord_id store_2 s = Inr r
                \<and> (\<forall>task \<in> set r. Status task = s)))"
proof -
  have i: "GetTasksByStatus ord_id store_2 TaskIncomplete = Inr [task_A]" by code_simp
  have c: "GetTasksByStatus ord_rev store_2 TaskCompleted = Inr [task_B]" by code_simp
  have a: "GetAll ord_rev store_2 = Inr [task_A, task_B]" by code_simp
  note t = status_filter[OF reachable_store_2 permutes_ord_id permutes_ord_rev permutes_ord_rev]
  show ?thesis
    using reachable_store_2 permutes_ord_id permutes_ord_rev i c a t by blast
qed

text \<open>
  C6. In every state reachable from a fresh store, each stored record has a name that
  is not empty and at most 255 bytes (hence at most 255 characters) long, one of the two
  legal statuses, and an update time not before its creation time. The stored records are
  what \<open>GetByID\<close> and \<open>GetAll\<close> return. Each writing operation leads to a state
  where this holds again, \<open>Create\<close> and \<open>Update\<close> for a clock that has not run
  backwards.
\<close>

theorem stored_record_invariant:
  assumes "reachable t ms"
  shows "(\<forall>task \<in> set (all_tasks ms).
            Name task \<noteq> [] \<and> length (Name task) \<le> 255
            \<and> (Status task = TaskIncomplete \<or> Status task = TaskCompleted)
            \<and> CreatedAt task \<le> UpdatedAt task)
     \<and> (\<forall>tid task. GetByID ms tid = Inr task \<longrightarrow> task \<in> set (all_tasks ms))
     \<and> (\<forall>ord r. permutes ord \<and> GetAll ord ms = Inr r \<longrightarrow> set r = set (all_tasks ms))
     \<and> (t \<le> now \<longrightarrow>
           list_all task_ok (all_tasks (snd (Create now taskID ms req)))
           \<and> list_all task_ok (all_tasks (snd (Update now ms tid upd))))
     \<and> list_all task_ok (all_tasks (snd (Delete ms key)))
     \<and> list_all task_ok (all_tasks (snd (Clear ms)))"
proof -
  have ok: "list_all task_ok (all_tasks ms')" if "store_inv t' ms'" for t' ms'
    using that by (simp add: store_inv_def list_all_iff)
  have inv: "store_inv t ms" using assms by (rule reachable_inv)
  have a: "\<forall>task \<in> set (all_tasks ms).
            Name task \<noteq> [] \<and> length (Name task) \<le> 255
            \<and> (Status task = TaskIncomplete \<or> Status task = TaskCompleted)
            \<and> CreatedAt task \<le> UpdatedAt task"
    using ok[OF inv] by (simp add: list_all_iff task_ok_def IsValid_def)
  have b: "\<forall>tid task. GetByID ms tid = Inr task \<longrightarrow> task \<in> set (all_tasks ms)"
    using GetByID_mem[OF store_inv_wf[OF inv]] by blast
  have c: "set r = set (all_tasks ms)" if "permutes ord \<and> GetAll ord ms = Inr r" for ord r
  proof -
    have "mset r = mset (all_tasks ms)"
      using GetAll_reachable[OF assms, of ord] that by auto
    then show ?thesis by (rule mset_eq_setD)
  qed
  have d: "list_all task_ok (all_tasks (snd (Create now taskID ms req)))
           \<and> list_all task_ok (all_tasks (snd (Update now ms tid upd)))" if "t \<le> now"
    using ok[OF store_inv_Create[OF inv that]] ok[OF store_inv_Update[OF inv that]] by simp
  have e: "list_all task_ok (all_tasks (snd (Delete ms key)))"
    using ok[OF store_inv_Delete[OF inv]] .
  have f: "list_all task_ok (all_tasks (snd (Clear ms)))"
    using ok[OF store_inv_Clear[OF inv]] .
  show ?thesis using a b c d e f by blast
qed

theorem stored_record_invariant_witness:
  "reachable 2 store_2 \<and> all_tasks store_2 = [task_A, task_B]
   \<and> Name task_A \<noteq> [] \<and> length (Name task_A) \<le> 255
   \<and> (Status task_A = TaskIncomplete \<or> Status task_A = TaskCompleted)
   \<and> CreatedAt task_A \<le> UpdatedAt task_A
   \<and> GetByID store_2 id_2 = Inr task_B \<and> task_B \<in> set (all_tasks store_2)
   \<and> (2::int) \<le> 3
   \<and> list_all task_ok (all_tasks (snd (Update 3 store_2 id_1 upd_status)))"
proof -
  have a: "all_tasks store_2 = [task_A, task_B]" by code_simp
  have g: "GetByID store_2 id_2 = Inr task_B" by code_simp
  note t = stored_record_invariant[OF reachable_store_2, of 3 id_3 req_A id_1 upd_status id_1]
  have 1: "Name task_A \<noteq> [] \<and> length (Name task_A) \<le> 255
   \<and> (Status task_A = TaskIncomplete \<or> Status task_A = TaskCompleted)
   \<and> CreatedAt task_A \<le> UpdatedAt task_A"
    using t a by simp
  have 2: "task_B \<in> set (all_tasks store_2)" using t g by blast
  have 3: "list_all task_ok (all_tasks (snd (Update 3 store_2 id_1 upd_status)))"
    using t by simp
  show ?thesis using reachable_store_2 a g 1 2 3 by simp
qed

section \<open>Finding a record again\<close>

lemma GetByID_replaced:
  assumes sc: "shardCount ms' = shardCount ms"
    and sh: "shards ms' = (shards ms)[i := Some sh']"
    and old: "shards ms ! i = Some sh"
    and same: "map_of (entries (tasks sh')) key = map_of (entries (tasks sh)) key"
  shows "GetByID ms' key = GetByID ms key"
proof -
  have g: "getShard ms' key = getShard ms key"
    by (rule getShard_cong) (simp_all add: sc sh)
  show ?thesis
  proof (cases "getShard ms key")
    case (Inl e)
    then show ?thesis using g by (simp add: GetByID_def)
  next
    case (Inr j)
    then have j: "j < length (shards ms)" by (rule getShard_InrD)
    show ?thesis
    proof (cases "j = i")
      case True
      then show ?thesis using g Inr j old same by (simp add: GetByID_def sh)
    next
      case False
      then show ?thesis using g Inr by (simp add: GetByID_def sh)
    qed
  qed
qed

lemma GetByID_Create_other:
  assumes "key \<noteq> taskID"
  shows "GetByID (snd (Create now taskID ms req)) key = GetByID ms key"
proof (cases "fst (Create now taskID ms req)")
  case (Inl e)
  then have "snd (Create now taskID ms req) = ms"
    by (auto simp: Create_def Let_def split: option.splits sum.splits if_splits)
  then show ?thesis by simp
next
  case (Inr task)
  then have c: "Create now taskID ms req = (Inr task, snd (Create now taskID ms req))"
    by (simp add: prod_eq_iff)
  obtain i sh al where i: "shards ms ! i = Some sh" "tasks sh = Some al"
    and ms': "snd (Create now taskID ms req) =
       ms\<lparr>shards := (shards ms)[i := Some (sh\<lparr>tasks := Some (AList.update taskID task al)\<rparr>)],
          taskCount := wrap64 (taskCount ms + 1)\<rparr>"
    using Create_InrD(4)[OF c] by blast
  show ?thesis
    using assms i
    by (intro GetByID_replaced[where i = i and sh = sh
          and sh' = "sh\<lparr>tasks := Some (AList.update taskID task al)\<rparr>"])
      (simp_all add: ms' entries_def update_conv')
qed

lemma Update_cases:
  "(\<exists>e. Update now ms tid upd = (Inl e, ms))
   \<or> (\<exists>i sh task. getShard ms tid = Inr i \<and> shards ms ! i = Some sh
         \<and> map_of (entries (tasks sh)) tid = Some task
         \<and> Validate_update upd = None \<and> HasUpdates upd
         \<and> Update now ms tid upd =
             (Inr (ApplyTo now upd task),
              ms\<lparr>shards := (shards ms)[i := Some (sh\<lparr>tasks :=
                   Some (AList.update tid (ApplyTo now upd task) (entries (tasks sh)))\<rparr>)]\<rparr>))"
  by (auto simp: Update_def Let_def split: option.splits sum.splits)

lemma Delete_cases:
  "(\<exists>e. Delete ms tid = (Some e, ms))
   \<or> (\<exists>i sh task. getShard ms tid = Inr i \<and> shards ms ! i = Some sh
         \<and> map_of (entries (tasks sh)) tid = Some task
         \<and> Delete ms tid =
             (None,
              ms\<lparr>shards := (shards ms)[i := Some (sh\<lparr>tasks :=
                   Some (AList.delete tid (entries (tasks sh)))\<rparr>)],
                 taskCount := wrap64 (taskCount ms - 1)\<rparr>))"
  by (auto simp: Delete_def Let_def split: option.splits sum.splits)

lemma GetByID_Update_other:
  assumes "key \<noteq> tid"
  shows "GetByID (snd (Update now ms tid upd)) key = GetByID ms key"
  using Update_cases[of now ms tid upd]
proof (elim disjE exE conjE)
  fix i sh task
  assume a: "shards ms ! i = Some sh"
    and u: "Update now ms tid upd =
             (Inr (ApplyTo now upd task),
              ms\<lparr>shards := (shards ms)[i := Some (sh\<lparr>tasks :=
                   Some (AList.update tid (ApplyTo now upd task) (entries (tasks sh)))\<rparr>)]\<rparr>)"
  show ?thesis
    using assms a
    by (intro GetByID_replaced[where i = i and sh = sh and sh' = "sh\<lparr>tasks :=
          Some (AList.update tid (ApplyTo now upd task) (entries (tasks sh)))\<rparr>"])
      (simp_all add: u entries_def update_conv')
qed simp

lemma GetByID_Delete_other:
  assumes "key \<noteq> tid"
  shows "GetByID (snd (Delete ms tid)) key = GetByID ms key"
  using Delete_cases[of ms tid]
proof (elim disjE exE conjE)
  fix i sh task
  assume a: "shards ms ! i = Some sh"
    and d: "Delete ms tid =
             (None,
              ms\<lparr>shards := (shards ms)[i := Some (sh\<lparr>tasks :=
                   Some (AList.delete tid (entries (tasks sh)))\<rparr>)],
                 taskCount := wrap64 (taskCount ms - 1)\<rparr>)"
  show ?thesis
    using assms a
    by (intro GetByID_replaced[where i = i and sh = sh and sh' = "sh\<lparr>tasks :=
          Some (AList.delete tid (entries (tasks sh)))\<rparr>"])
      (simp_all add: d entries_def delete_conv')
qed simp

lemma GetByID_replaced_same:
  assumes g: "getShard ms key = Inr i"
    and sc: "shardCount ms' = shardCount ms"
    and sh: "shards ms' = (shards ms)[i := Some sh']"
  shows "GetByID ms' key =
     (case map_of (entries (tasks sh')) key of None \<Rightarrow> Inl (NotFound key) | Some task \<Rightarrow> Inr task)"
proof -
  have "getShard ms' key = Inr i"
    using g getShard_cong[of ms' ms key] by (simp add: sc sh)
  moreover have "i < length (shards ms)" using g by (rule getShard_InrD)
  ultimately show ?thesis by (simp add: GetByID_def sh)
qed

lemma Update_agrees:
  assumes "Validate_update upd = None" "HasUpdates upd"
  shows "fst (Update now ms tid upd) =
     (case GetByID ms tid of Inl e \<Rightarrow> Inl e | Inr task \<Rightarrow> Inr (ApplyTo now upd task))"
  using assms by (auto simp: Update_def GetByID_def Let_def split: option.splits sum.splits)

lemma Delete_agrees:
  "fst (Delete ms key) = (case GetByID ms key of Inl e \<Rightarrow> Some e | Inr task \<Rightarrow> None)"
  by (auto simp: Delete_def GetByID_def Let_def split: option.splits sum.splits)

lemma GetByID_Update_same:
  assumes "fst (Update now ms tid upd) = Inr new"
  shows "GetByID (snd (Update now ms tid upd)) tid = Inr new"
  using Update_cases[of now ms tid upd]
proof (elim disjE exE conjE)
  fix i sh task
  assume g: "getShard ms tid = Inr i"
    and u: "Update now ms tid upd =
             (Inr (ApplyTo now upd task),
              ms\<lparr>shards := (shards ms)[i := Some (sh\<lparr>tasks :=
                   Some (AList.update tid (ApplyTo now upd task) (entries (tasks sh)))\<rparr>)]\<rparr>)"
  have "GetByID (snd (Update now ms tid upd)) tid = Inr (ApplyTo now upd task)"
    by (subst GetByID_replaced_same[OF g, where sh' = "sh\<lparr>tasks :=
          Some (AList.update tid (ApplyTo now upd task) (entries (tasks sh)))\<rparr>"])
      (simp_all add: u entries_def update_conv')
  then show ?thesis using assms u by simp
next
  fix e assume "Update now ms tid upd = (Inl e, ms)"
  then show ?thesis using assms by simp
qed

lemma GetByID_Delete_same:
  assumes "fst (Delete ms key) = None"
  shows "GetByID (snd (Delete ms key)) key = Inl (NotFound key)"
  using Delete_cases[of ms key]
proof (elim disjE exE conjE)
  fix i sh task
  assume g: "getShard ms key = Inr i"
    and d: "Delete ms key =
             (None,
              ms\<lparr>shards := (shards ms)[i := Some (sh\<lparr>tasks :=
                   Some (AList.delete key (entries (tasks sh)))\<rparr>)],
                 taskCount := wrap64 (taskCount ms - 1)\<rparr>)"
  show ?thesis
    by (subst GetByID_replaced_same[OF g, where sh' = "sh\<lparr>tasks :=
          Some (AList.delete key (entries (tasks sh)))\<rparr>"])
      (simp_all add: d entries_def delete_conv')
next
  fix e assume "Delete ms key = (Some e, ms)"
  then show ?thesis using assms by simp
qed

lemma found_apply_write:
  assumes "\<exists>task. GetByID ms key = Inr task" "\<not> removes key w"
  shows "\<exists>task. GetByID (apply_write w ms) key = Inr task"
proof (cases w)
  case (DoCreate now taskID req)
  show ?thesis
  proof (cases "taskID = key")
    case False
    then show ?thesis using assms(1) by (simp add: DoCreate GetByID_Create_other)
  next
    case True
    show ?thesis
    proof (cases "fst (Create now taskID ms req)")
      case (Inl e)
      then have "snd (Create now taskID ms req) = ms"
        by (auto simp: Create_def Let_def split: option.splits sum.splits if_splits)
      then show ?thesis using assms(1) by (simp add: DoCreate)
    next
      case (Inr task)
      then have "Create now taskID ms req = (Inr task, snd (Create now taskID ms req))"
        by (simp add: prod_eq_iff)
      from Create_then_GetByID[OF this] show ?thesis using True by (auto simp: DoCreate)
    qed
  qed
next
  case (DoUpdate now tid upd)
  show ?thesis
  proof (cases "tid = key")
    case False
    then show ?thesis using assms(1) by (simp add: DoUpdate GetByID_Update_other)
  next
    case True
    show ?thesis
    proof (cases "fst (Update now ms tid upd)")
      case (Inl e)
      then have "snd (Update now ms tid upd) = ms"
        using Update_cases[of now ms tid upd] by auto
      then show ?thesis using assms(1) by (simp add: DoUpdate)
    next
      case (Inr new)
      from GetByID_Update_same[OF this] show ?thesis using True by (auto simp: DoUpdate)
    qed
  qed
next
  case (DoDelete tid)
  then show ?thesis using assms by (simp add: GetByID_Delete_other)
next
  case DoClear
  then show ?thesis using assms by simp
qed

lemma kept_apply_write:
  assumes "\<not> touches key w"
  shows "GetByID (apply_write w ms) key = GetByID ms key"
  using assms
  by (cases w) (simp_all add: GetByID_Create_other GetByID_Update_other GetByID_Delete_other)

lemma kept_run_writes:
  "list_all (\<lambda>w. \<not> touches key w) ws \<Longrightarrow> GetByID (run_writes ws ms) key = GetByID ms key"
  by (induction ws arbitrary: ms) (simp_all add: kept_apply_write)

lemma found_run_writes:
  "\<exists>task. GetByID ms key = Inr task \<Longrightarrow> list_all (\<lambda>w. \<not> removes key w) ws \<Longrightarrow>
   \<exists>task. GetByID (run_writes ws ms) key = Inr task"
proof (induction ws arbitrary: ms)
  case Nil
  then show ?case by simp
next
  case (Cons w ws)
  then show ?case using found_apply_write[of ms key w] by simp
qed

lemma Delete_Count:
  assumes r: "reachable t ms" and d: "fst (Delete ms key) = None"
  shows "Count (snd (Delete ms key)) = Count ms - 1"
proof -
  have inv: "store_inv t ms" using r by (rule reachable_inv)
  then have wf: "wf_shards ms" by (rule store_inv_wf)
  obtain task where "GetByID ms key = Inr task"
    using d by (auto simp: Delete_agrees split: sum.splits)
  then have "task \<in> set (all_tasks ms)" by (rule GetByID_mem[OF wf])
  then have "0 < int (length (all_tasks ms))" by (cases "all_tasks ms") simp_all
  moreover have "int (length (all_tasks ms)) \<le> taskCount ms"
    using inv by (simp add: store_inv_def)
  ultimately have pos: "0 < taskCount ms" by linarith
  have "Delete ms key = (None, snd (Delete ms key))" using d by (simp add: prod_eq_iff)
  from Delete_at_count[OF wf this pos] store_inv_count[OF inv] show ?thesis
    by (simp add: Count_def)
qed

lemma apply_write_frame:
  "shardCount (apply_write w ms) = shardCount ms"
  "length (shards (apply_write w ms)) = length (shards ms)"
  by (cases w; simp add: Create_frame Update_frame Delete_frame Clear_frame)+

lemma getShard_apply_write: "getShard (apply_write w ms) key = getShard ms key"
  by (rule getShard_cong) (simp_all add: apply_write_frame)

lemma getShard_run_writes: "getShard (run_writes ws ms) key = getShard ms key"
  by (induction ws arbitrary: ms) (simp_all add: getShard_apply_write)

text \<open>
  C7. The hash of \<open>getShard\<close> is FNV-1a on 32 bits as the specification words it.
  Whenever \<open>getShard\<close> returns, the index is the hash modulo the shard count and lies
  below the shard count and inside the slice; in a reachable store it always returns.
  The index depends on the key, the shard count and the number of shards only, none of
  which a write or a sequence of writes changes, so a key keeps its shard, and a write
  that does not touch a key leaves what \<open>GetByID\<close> returns for it as it was.

  Hence a record put in by \<open>Create\<close> is found again: by \<open>GetByID\<close> at once; after
  any later writes among which none deletes its key or clears the store, as some record
  under that key; after any later writes that do not touch its key, as the very record,
  which a valid \<open>Update\<close> with at least one field then replaces by the updated copy
  and \<open>Delete\<close> then removes, so that \<open>GetByID\<close> answers \<open>NotFound\<close> afterwards.
  On any store, a record that \<open>GetByID\<close> finds is updated and deleted in the same
  way, a delete in a reachable store lowers the count by one, and \<open>Delete\<close> succeeds
  only on a key that \<open>GetByID\<close> finds.
\<close>

theorem shard_selection:
  "unat (fnv32Hash key) = fnv1a_32_spec key
   \<and> (\<forall>i. getShard ms key = Inr i \<longrightarrow>
         i = fnv1a_32_spec key mod unat (shardCount ms)
         \<and> i < unat (shardCount ms) \<and> i < length (shards ms))
   \<and> (reachable t ms \<longrightarrow> (\<exists>i. getShard ms key = Inr i))
   \<and> getShard (snd (Create now taskID ms req)) key = getShard ms key
   \<and> getShard (snd (Update now ms tid upd)) key = getShard ms key
   \<and> getShard (snd (Delete ms tid)) key = getShard ms key
   \<and> getShard (snd (Clear ms)) key = getShard ms key
   \<and> getShard (run_writes ws ms) key = getShard ms key
   \<and> (\<not> touches key w \<longrightarrow> GetByID (apply_write w ms) key = GetByID ms key)
   \<and> (\<forall>task ms'. Create now taskID ms req = (Inr task, ms') \<longrightarrow>
         GetByID ms' taskID = Inr task
         \<and> (list_all (\<lambda>w. \<not> removes taskID w) ws \<longrightarrow>
              (\<exists>task'. GetByID (run_writes ws ms') taskID = Inr task'))
         \<and> (list_all (\<lambda>w. \<not> touches taskID w) ws \<longrightarrow>
              GetByID (run_writes ws ms') taskID = Inr task
              \<and> (Validate_update upd = None \<and> HasUpdates upd \<longrightarrow>
                   fst (Update now' (run_writes ws ms') taskID upd) = Inr (ApplyTo now' upd task)
                   \<and> GetByID (snd (Update now' (run_writes ws ms') taskID upd)) taskID
                       = Inr (ApplyTo now' upd task))
              \<and> fst (Delete (run_writes ws ms') taskID) = None
              \<and> GetByID (snd (Delete (run_writes ws ms') taskID)) taskID
                  = Inl (NotFound taskID)))
   \<and> (\<forall>task. GetByID ms key = Inr task \<longrightarrow>
         (Validate_update upd = None \<and> HasUpdates upd \<longrightarrow>
            fst (Update now' ms key upd) = Inr (ApplyTo now' upd task)
            \<and> GetByID (snd (Update now' ms key upd)) key = Inr (ApplyTo now' upd task))
         \<and> fst (Delete ms key) = None
         \<and> GetByID (snd (Delete ms key)) key = Inl (NotFound key)
         \<and> (reachable t ms \<longrightarrow> Count (snd (Delete ms key)) = Count ms - 1))
   \<and> (fst (Delete ms key) = None \<longrightarrow> (\<exists>task. GetByID ms key = Inr task))"
proof -
  have a: "i = fnv1a_32_spec key mod unat (shardCount ms)
         \<and> i < unat (shardCount ms) \<and> i < length (shards ms)" if "getShard ms key = Inr i" for i
  proof -
    have "0 < unat (shardCount ms)" using getShard_InrD(2)[OF that] by (simp add: unat_gt_0)
    then show ?thesis using getShard_InrD(1,3)[OF that] by (simp add: fnv32Hash_spec)
  qed
  have b: "\<exists>i. getShard ms key = Inr i" if "reachable t ms"
    using wf_shards_nth(2)[OF store_inv_wf[OF reachable_inv[OF that]]] by blast
  have c: "getShard (snd (Create now taskID ms req)) key = getShard ms key"
    by (rule getShard_cong) (simp_all add: Create_frame)
  have d: "getShard (snd (Update now ms tid upd)) key = getShard ms key"
    by (rule getShard_cong) (simp_all add: Update_frame)
  have e: "getShard (snd (Delete ms tid)) key = getShard ms key"
    by (rule getShard_cong) (simp_all add: Delete_frame)
  have f: "getShard (snd (Clear ms)) key = getShard ms key"
    by (rule getShard_cong) (simp_all add: Clear_frame)
  note g = getShard_run_writes[of ws ms key]
  have h: "GetByID (apply_write w ms) key = GetByID ms key" if "\<not> touches key w"
    using that by (rule kept_apply_write)
  have found: "(Validate_update upd = None \<and> HasUpdates upd \<longrightarrow>
            fst (Update now' st k upd) = Inr (ApplyTo now' upd task)
            \<and> GetByID (snd (Update now' st k upd)) k = Inr (ApplyTo now' upd task))
         \<and> fst (Delete st k) = None
         \<and> GetByID (snd (Delete st k)) k = Inl (NotFound k)"
    if "GetByID st k = Inr task" for st k task
  proof -
    have u: "fst (Update now' st k upd) = Inr (ApplyTo now' upd task)"
      if "Validate_update upd = None \<and> HasUpdates upd"
      using that \<open>GetByID st k = Inr task\<close> by (simp add: Update_agrees)
    have dl: "fst (Delete st k) = None"
      using \<open>GetByID st k = Inr task\<close> by (simp add: Delete_agrees)
    show ?thesis
      using u GetByID_Update_same[of now' st k upd] dl GetByID_Delete_same[OF dl] by blast
  qed
  have i: "GetByID ms' taskID = Inr task
         \<and> (list_all (\<lambda>w. \<not> removes taskID w) ws \<longrightarrow>
              (\<exists>task'. GetByID (run_writes ws ms') taskID = Inr task'))
         \<and> (list_all (\<lambda>w. \<not> touches taskID w) ws \<longrightarrow>
              GetByID (run_writes ws ms') taskID = Inr task
              \<and> (Validate_update upd = None \<and> HasUpdates upd \<longrightarrow>
                   fst (Update now' (run_writes ws ms') taskID upd) = Inr (ApplyTo now' upd task)
                   \<and> GetByID (snd (Update now' (run_writes ws ms') taskID upd)) taskID
                       = Inr (ApplyTo now' upd task))
              \<and> fst (Delete (run_writes ws ms') taskID) = None
              \<and> GetByID (snd (Delete (run_writes ws ms') taskID)) taskID
                  = Inl (NotFound taskID))"
    if cr: "Create now taskID ms req = (Inr task, ms')" for task ms'
  proof -
    have 1: "GetByID ms' taskID = Inr task" using cr by (rule Create_then_GetByID)
    have 2: "\<exists>task'. GetByID (run_writes ws ms') taskID = Inr task'"
      if "list_all (\<lambda>w. \<not> removes taskID w) ws"
      using found_run_writes[OF _ that, of ms'] 1 by blast
    have 3: "GetByID (run_writes ws ms') taskID = Inr task"
      if "list_all (\<lambda>w. \<not> touches taskID w) ws"
      using kept_run_writes[OF that, of ms'] 1 by simp
    show ?thesis using 1 2 3 found[of "run_writes ws ms'" taskID task] by blast
  qed
  have j: "(Validate_update upd = None \<and> HasUpdates upd \<longrightarrow>
            fst (Update now' ms key upd) = Inr (ApplyTo now' upd task)
            \<and> GetByID (snd (Update now' ms key upd)) key = Inr (ApplyTo now' upd task))
         \<and> fst (Delete ms key) = None
         \<and> GetByID (snd (Delete ms key)) key = Inl (NotFound key)
         \<and> (reachable t ms \<longrightarrow> Count (snd (Delete ms key)) = Count ms - 1)"
    if "GetByID ms key = Inr task" for task
    using found[OF that] Delete_Count[of t ms key] by blast
  have k: "\<exists>task. GetByID ms key = Inr task" if "fst (Delete ms key) = None"
    using that by (auto simp: Delete_agrees split: sum.splits)
  show ?thesis
    using a b c d e f g h i j k fnv32Hash_spec[of key] by blast
qed


lemma reachable_store_3: "reachable 3 store_3"
proof -
  have "reachable 1 store_A"
    unfolding store_A_def
    by (rule reachable.create[of 0]) (simp_all add: reachable.fresh is_int64_def)
  then have "reachable 2 (snd (Create 2 id_2 store_A req_B))"
    by (rule reachable.create) simp
  then have "reachable 3 (snd (Update 3 (snd (Create 2 id_2 store_A req_B)) id_2 upd_name))"
    by (rule reachable.update) simp
  then have "reachable 3
      (snd (Delete (snd (Update 3 (snd (Create 2 id_2 store_A req_B)) id_2 upd_name)) id_3))"
    by (rule reachable.delete)
  then show ?thesis by (simp add: store_3_def writes_3_def)
qed

theorem shard_selection_witness:
  "fnv1a_32_spec ''a'' = 3826002220 \<and> fnv32Hash ''a'' = 3826002220
   \<and> reachable 0 (NewMemoryStorage 2)
   \<and> getShard (NewMemoryStorage 2) id_1 = Inr 2
   \<and> 2 = fnv1a_32_spec id_1 mod unat (shardCount (NewMemoryStorage 2))
   \<and> (2::nat) < unat (shardCount (NewMemoryStorage 2))
   \<and> Create 1 id_1 (NewMemoryStorage 2) req_A = (Inr task_A, store_A)
   \<and> GetByID store_A id_1 = Inr task_A
   \<and> list_all (\<lambda>w. \<not> touches id_1 w) writes_3
   \<and> store_3 = run_writes writes_3 store_A
   \<and> getShard store_3 id_1 = Inr 2
   \<and> GetByID store_3 id_1 = Inr task_A
   \<and> Validate_update upd_status = None \<and> HasUpdates upd_status
   \<and> fst (Update 4 store_3 id_1 upd_status) = Inr (ApplyTo 4 upd_status task_A)
   \<and> GetByID (snd (Update 4 store_3 id_1 upd_status)) id_1 = Inr (ApplyTo 4 upd_status task_A)
   \<and> fst (Delete store_3 id_1) = None
   \<and> GetByID (snd (Delete store_3 id_1)) id_1 = Inl (NotFound id_1)
   \<and> reachable 3 store_3
   \<and> Count (snd (Delete store_3 id_1)) = Count store_3 - 1
   \<and> GetByID (snd (Delete store_3 id_1)) id_2 = GetByID store_3 id_2
   \<and> fst (Delete store_3 id_3) = Some (NotFound id_3)
   \<and> GetByID store_3 id_3 = Inl (NotFound id_3)"
proof -
  have v: "fnv32Hash ''a'' = 3826002220" by code_simp
  from v have v': "unat (fnv32Hash ''a'') = 3826002220" by simp
  have r: "reachable 0 (NewMemoryStorage 2)" by (rule reachable.fresh) (simp add: is_int64_def)
  have g: "getShard (NewMemoryStorage 2) id_1 = Inr 2" by code_simp
  have c: "Create 1 id_1 (NewMemoryStorage 2) req_A = (Inr task_A, store_A)" by code_simp
  have l: "list_all (\<lambda>w. \<not> touches id_1 w) writes_3" by code_simp
  have u: "Validate_update upd_status = None \<and> HasUpdates upd_status" by code_simp
  have n: "fst (Delete store_3 id_3) = Some (NotFound id_3)" by code_simp
  have nt: "\<not> touches id_2 (DoDelete id_1)" by code_simp
  note t0 = shard_selection[where key = "''a''"]
  note t1 = shard_selection[where key = id_1 and ms = "NewMemoryStorage 2" and t = 0 and now = 1
      and taskID = id_1 and req = req_A and ws = writes_3 and upd = upd_status and now' = 4]
  note t2 = shard_selection[where key = id_1 and ms = store_3 and t = 3]
  note t3 = shard_selection[where key = id_2 and ms = store_3 and w = "DoDelete id_1"]
  note t4 = shard_selection[where key = id_3 and ms = store_3]
  have 1: "fnv1a_32_spec ''a'' = 3826002220" using t0 v' by simp
  have 2: "2 = fnv1a_32_spec id_1 mod unat (shardCount (NewMemoryStorage 2))
      \<and> (2::nat) < unat (shardCount (NewMemoryStorage 2))"
    using t1 g by blast
  have 3: "GetByID store_A id_1 = Inr task_A
      \<and> GetByID (run_writes writes_3 store_A) id_1 = Inr task_A
      \<and> fst (Update 4 (run_writes writes_3 store_A) id_1 upd_status)
          = Inr (ApplyTo 4 upd_status task_A)
      \<and> GetByID (snd (Update 4 (run_writes writes_3 store_A) id_1 upd_status)) id_1
          = Inr (ApplyTo 4 upd_status task_A)
      \<and> fst (Delete (run_writes writes_3 store_A) id_1) = None
      \<and> GetByID (snd (Delete (run_writes writes_3 store_A) id_1)) id_1 = Inl (NotFound id_1)"
    using t1 c l u by blast
  have 4: "getShard store_3 id_1 = Inr 2"
    using t2 g getShard_run_writes[of writes_3 store_A id_1]
      getShard_apply_write[of "DoCreate 1 id_1 req_A" "NewMemoryStorage 2" id_1]
    by (simp add: store_3_def store_A_def)
  have 5: "Count (snd (Delete store_3 id_1)) = Count store_3 - 1"
    using t2 3 reachable_store_3 by (simp add: store_3_def)
  have 6: "GetByID (snd (Delete store_3 id_1)) id_2 = GetByID store_3 id_2"
    using t3 nt by simp
  have 7: "GetByID store_3 id_3 = Inl (NotFound id_3)"
  proof (cases "GetByID store_3 id_3")
    case (Inl e)
    then show ?thesis using n by (simp add: Delete_agrees)
  next
    case (Inr task)
    then have "fst (Delete store_3 id_3) = None" using t4 by blast
    then show ?thesis using n by simp
  qed
  show ?thesis
    using v 1 r g 2 c 3 l 4 u 5 6 n 7 reachable_store_3 by (simp add: store_3_def)
qed

section \<open>Pagination\<close>

lemma paginate_no_overflow:
  assumes "0 \<le> offset" "0 < limit" "offset + limit < 2 ^ 63"
  shows "paginate allTasks offset limit =
     Inr (take (nat (min (offset + limit) (int (length allTasks)) - offset))
            (drop (nat offset) allTasks),
          int (length allTasks))"
proof -
  have w: "wrap64 (offset + limit) = offset + limit"
    using assms by (intro wrap64_id) (simp add: is_int64_def)
  show ?thesis
    using assms by (auto simp: paginate_def Let_def w slice_def min_def)
qed

lemma paginate_past_end:
  "int (length allTasks) \<le> offset \<Longrightarrow>
   paginate allTasks offset limit = Inr ([], int (length allTasks))"
  by (simp add: paginate_def Let_def)

lemma paginate_overflow:
  assumes "0 \<le> offset" "offset < int (length allTasks)" "limit < 2 ^ 63"
    and "2 ^ 63 \<le> offset + limit" "int (length allTasks) < 2 ^ 63"
  shows "paginate allTasks offset limit = Inl Panic"
proof -
  have "wrap64 (offset + limit) = offset + limit - 2 ^ 64"
  proof -
    have r: "0 \<le> offset + limit - 2 ^ 63" "offset + limit - 2 ^ 63 < 2 ^ 64"
      using assms by simp_all
    define x where "x = offset + limit - 2 ^ 63"
    have "offset + limit + 2 ^ 63 = x + 2 ^ 64" by (simp add: x_def)
    then have "(offset + limit + 2 ^ 63) mod 2 ^ 64 = (x + 2 ^ 64) mod 2 ^ 64"
      by (simp only:)
    also have "\<dots> = x mod 2 ^ 64"
      by (rule mod_add_self2)
    also have "\<dots> = x"
      using r by (intro mod_pos_pos_trivial) (simp_all add: x_def)
    also have "x = offset + limit - 2 ^ 63" by (simp add: x_def)
    finally show ?thesis by (simp add: wrap64_def)
  qed
  moreover have "offset + limit - 2 ^ 64 < 0" using assms by simp
  ultimately show ?thesis
    using assms by (simp add: paginate_def Let_def slice_def)
qed

lemma page_length:
  assumes "0 \<le> offset" "0 < limit"
  shows "int (length (take (nat (min (offset + limit) (int (length xs)) - offset))
            (drop (nat offset) xs)))
         = min limit (max 0 (int (length xs) - offset))"
  using assms by (auto simp: min_def max_def)

text \<open>
  What \<open>GetTasksPaginated\<close> does in a reachable store holding \<open>T\<close> records, for
  \<open>offset \<ge> 0\<close> and \<open>limit > 0\<close> of type \<open>int\<close> and any order in which the run time
  visits the maps. When \<open>offset < T\<close> and \<open>offset + limit\<close> exceeds the largest
  \<open>int\<close>, it panics. In every other case it returns the total \<open>T\<close> and the records
  at positions \<open>offset\<close> up to \<open>min (offset + limit) T\<close> of the materialised record set
  (what \<open>GetAll\<close> returns for the same order), which are
  \<open>min limit (max 0 (T - offset))\<close> many, none when \<open>offset \<ge> T\<close>.
\<close>

theorem pagination_behaviour:
  assumes "reachable t ms" and "permutes ord"
    and "0 \<le> offset" and "0 < limit" and "is_int64 offset" and "is_int64 limit"
  shows "\<exists>allTasks.
           GetAll ord ms = Inr allTasks \<and> mset allTasks = mset (all_tasks ms)
         \<and> (if offset < int (length (all_tasks ms)) \<and> 2 ^ 63 \<le> offset + limit
             then GetTasksPaginated ord ms offset limit = Inl Panic
             else (\<exists>page.
                     GetTasksPaginated ord ms offset limit
                       = Inr (page, int (length (all_tasks ms)))
                   \<and> page = take (nat (min (offset + limit) (int (length (all_tasks ms)))
                                         - offset))
                               (drop (nat offset) allTasks)
                   \<and> int (length page) = min limit (max 0 (int (length (all_tasks ms)) - offset))
                   \<and> (int (length (all_tasks ms)) \<le> offset \<longrightarrow> page = [])))"
proof -
  obtain allTasks where a: "GetAll ord ms = Inr allTasks" "mset allTasks = mset (all_tasks ms)"
    using GetAll_reachable[OF assms(1,2)] by blast
  have len: "length allTasks = length (all_tasks ms)" using a(2) by (rule mset_eq_length)
  have inv: "store_inv t ms" using assms(1) by (rule reachable_inv)
  have c: "0 \<le> taskCount ms" using inv by (rule store_inv_count[THEN conjunct1])
  have T: "int (length (all_tasks ms)) < 2 ^ 63" using inv by (simp add: store_inv_def)
  have col: "collect ord (\<lambda>task. True) 0 (shards ms) [] = Inr allTasks"
    using a(1) c by (simp add: GetAll_def)
  have g: "GetTasksPaginated ord ms offset limit = paginate allTasks offset limit"
    using c col by (simp add: GetTasksPaginated_def)
  define page where "page = take (nat (min (offset + limit) (int (length (all_tasks ms))) - offset))
                     (drop (nat offset) allTasks)"
  have pl: "int (length page) = min limit (max 0 (int (length (all_tasks ms)) - offset))"
    using page_length[OF assms(3,4), of allTasks] by (simp add: page_def len)
  have pe: "int (length (all_tasks ms)) \<le> offset \<longrightarrow> page = []"
    by (simp add: page_def)
  show ?thesis
  proof (cases "offset < int (length (all_tasks ms)) \<and> 2 ^ 63 \<le> offset + limit")
    case True
    then have "paginate allTasks offset limit = Inl Panic"
      using assms(3,6) T by (intro paginate_overflow) (simp_all add: len is_int64_def)
    then show ?thesis using a g True by auto
  next
    case False
    have "paginate allTasks offset limit = Inr (page, int (length (all_tasks ms)))"
    proof (cases "offset + limit < 2 ^ 63")
      case True
      then show ?thesis
        using paginate_no_overflow[OF assms(3,4), of allTasks] by (simp add: page_def len)
    next
      case f: False
      then have "int (length allTasks) \<le> offset" using False by (simp add: len)
      then show ?thesis
        using paginate_past_end[of allTasks offset limit] pe by (simp add: len)
    qed
    then show ?thesis using a g False pl pe page_def by auto
  qed
qed

text \<open>The single-map store of internal/storage/memory.go pages its map in the same way.\<close>

lemma pagination_single:
  assumes "permutes ord" and "0 \<le> offset" and "0 < limit"
    and "offset + limit < 2 ^ 63 \<or> int (length (entries tasks1)) \<le> offset"
  shows "GetTasksPaginated_single ord tasks1 offset limit =
             Inr (take (nat (min (offset + limit) (int (length (entries tasks1))) - offset))
                    (drop (nat offset) (map snd (ord 0 (entries tasks1)))),
                  int (length (entries tasks1)))"
proof -
  have "mset (ord 0 (entries tasks1)) = mset (entries tasks1)"
    using assms(1) by (simp add: permutes_def)
  then have len: "length (ord 0 (entries tasks1)) = length (entries tasks1)"
    by (rule mset_eq_length)
  show ?thesis
  proof (cases "offset + limit < 2 ^ 63")
    case True
    then show ?thesis
      using paginate_no_overflow[OF assms(2,3), of "map snd (ord 0 (entries tasks1))"] len
      by (simp add: GetTasksPaginated_single_def range_append_eq)
  next
    case False
    then have "int (length (entries tasks1)) \<le> offset" using assms(4) by simp
    then show ?thesis
      using paginate_past_end[of "map snd (ord 0 (entries tasks1))" offset limit] len
      by (simp add: GetTasksPaginated_single_def range_append_eq)
  qed
qed

lemma pagination_single_overflow:
  assumes "permutes ord" and "0 \<le> offset" and "offset < int (length (entries tasks1))"
    and "limit < 2 ^ 63" and "2 ^ 63 \<le> offset + limit"
    and "int (length (entries tasks1)) < 2 ^ 63"
  shows "GetTasksPaginated_single ord tasks1 offset limit = Inl Panic"
proof -
  have "mset (ord 0 (entries tasks1)) = mset (entries tasks1)"
    using assms(1) by (simp add: permutes_def)
  then have len: "length (ord 0 (entries tasks1)) = length (entries tasks1)"
    by (rule mset_eq_length)
  show ?thesis
    using paginate_overflow[of offset "map snd (ord 0 (entries tasks1))" limit] assms len
    by (simp add: GetTasksPaginated_single_def range_append_eq)
qed

theorem pagination_behaviour_example:
  "reachable 2 store_2 \<and> permutes ord_id
   \<and> GetAll ord_id store_2 = Inr [task_A, task_B]
   \<and> all_tasks store_2 = [task_A, task_B]
   \<and> GetTasksPaginated ord_id store_2 1 5 = Inr ([task_B], 2)
   \<and> int (length [task_B]) = min 5 (max 0 (2 - 1))
   \<and> GetTasksPaginated ord_id store_2 2 5 = Inr ([], 2)
   \<and> GetTasksPaginated ord_id store_2 9223372036854775807 100 = Inr ([], 2)"
proof -
  have i: "is_int64 1" "is_int64 2" "is_int64 5" "is_int64 100" "is_int64 9223372036854775807"
    by (simp_all add: is_int64_def)
  have g: "GetAll ord_id store_2 = Inr [task_A, task_B]" by code_simp
  have a: "all_tasks store_2 = [task_A, task_B]" by code_simp
  note t1 = pagination_behaviour[OF reachable_store_2 permutes_ord_id _ _ i(1) i(3)]
  note t2 = pagination_behaviour[OF reachable_store_2 permutes_ord_id _ _ i(2) i(3)]
  note t3 = pagination_behaviour[OF reachable_store_2 permutes_ord_id _ _ i(5) i(4)]
  have 1: "GetTasksPaginated ord_id store_2 1 5 = Inr ([task_B], 2)"
    using t1 g a by auto
  have 2: "GetTasksPaginated ord_id store_2 2 5 = Inr ([], 2)"
    using t2 g a by auto
  have 3: "GetTasksPaginated ord_id store_2 9223372036854775807 100 = Inr ([], 2)"
    using t3 g a by auto
  show ?thesis
    using reachable_store_2 permutes_ord_id g a 1 2 3 by simp
qed

text \<open>
  C4. The pagination contract (total \<open>T\<close> and \<open>min limit (max 0 (T - offset))\<close>
  records for every \<open>offset \<ge> 0\<close> and \<open>limit > 0\<close>) is what the code sets out to
  do, clamping \<open>end\<close> to the total, but the clamp misses the overflow of
  \<open>offset + limit\<close>. With two records stored, offset 1 and the largest 64-bit limit, the
  sum wraps to the smallest integer, the test \<open>end > total\<close> is false, and the slice
  expression panics with its upper bound below its lower one, where the contract
  promises one record and the total 2.
\<close>

theorem pagination_overflow_panics:
  "reachable 2 store_2 \<and> permutes ord_id
   \<and> GetAll ord_id store_2 = Inr [task_A, task_B]
   \<and> (0::int) \<le> 1 \<and> (0::int) < 9223372036854775807
   \<and> wrap64 (1 + 9223372036854775807) = - 9223372036854775808
   \<and> GetTasksPaginated ord_id store_2 1 9223372036854775807 = Inl Panic
   \<and> GetTasksPaginated_single ord_id (Some [(id_1, task_A), (id_2, task_B)])
        1 9223372036854775807 = Inl Panic"
proof -
  have g: "GetAll ord_id store_2 = Inr [task_A, task_B]" by code_simp
  have w: "wrap64 (1 + 9223372036854775807) = - 9223372036854775808"
    by (simp add: wrap64_def)
  have p: "GetTasksPaginated ord_id store_2 1 9223372036854775807 = Inl Panic" by code_simp
  have q: "GetTasksPaginated_single ord_id (Some [(id_1, task_A), (id_2, task_B)])
        1 9223372036854775807 = Inl Panic" by code_simp
  show ?thesis
    using reachable_store_2 permutes_ord_id g w p q by simp
qed

end
